theory Spec2Isabelle
  imports
    Main
    "HOL-Library.Char_ord"
    "HOL-Library.List_Lexorder"
    "HOL-Library.Product_Lexorder"
    "HOL-Library.AList"
begin

section \<open>The ordered key/value store\<close>

text \<open>
  The engine keeps everything in FoundationDB. A key is built by the directory layer
  (\<^verbatim>\<open>directory.CreateOrOpen(db, []string{"catalog"}, nil)\<close>), a subspace
  (\<^verbatim>\<open>catalogDir.Sub("table")\<close>) and the tuple layer (\<^verbatim>\<open>tableSS.Pack(tuple.Tuple{...})\<close>).
  The program packs strings only, so a key is modelled by the directory path together with
  the sequence of string elements packed after the directory prefix. Tuple packing is injective
  and order preserving; the order of packed keys inside one directory is the lexicographic
  order of the element sequences, which is the order of \<open>string list\<close> here.
  No element the program packs holds a NUL byte, so a byte-prefix range over a packed tuple
  selects the keys whose element sequence starts with that tuple.
\<close>

type_synonym bytes = string
type_synonym tuple = "string list"
type_synonym key = "string list \<times> tuple"
type_synonym subspace = key
type_synonym store = "(key \<times> bytes) list"

definition Sub :: "subspace \<Rightarrow> string \<Rightarrow> subspace" where
  "Sub ss e = (fst ss, snd ss @ [e])"

definition Pack :: "subspace \<Rightarrow> tuple \<Rightarrow> key" where
  "Pack ss t = (fst ss, snd ss @ t)"

text \<open>\<^verbatim>\<open>t, _ := ss.Unpack(k)\<close>: the error is dropped, and \<open>t\<close> is nil when \<open>k\<close> is not in \<open>ss\<close>.\<close>

definition Unpack :: "subspace \<Rightarrow> key \<Rightarrow> tuple" where
  "Unpack ss k =
     (if fst k = fst ss \<and> take (length (snd ss)) (snd k) = snd ss
      then drop (length (snd ss)) (snd k) else [])"

text \<open>
  A subspace used as a range (\<^verbatim>\<open>GetRange(tableSS.Sub(name), ...)\<close>) covers the keys that extend
  its prefix by at least one element; the key equal to the prefix is outside.
\<close>

definition subspace_range :: "subspace \<Rightarrow> key \<Rightarrow> bool" where
  "subspace_range ss k \<longleftrightarrow>
     fst k = fst ss \<and> length (snd ss) < length (snd k) \<and> take (length (snd ss)) (snd k) = snd ss"

text \<open>\<^verbatim>\<open>fdb.PrefixRange(query)\<close>: every key that starts with \<open>query\<close>, \<open>query\<close> itself included.\<close>

definition PrefixRange :: "key \<Rightarrow> key \<Rightarrow> bool" where
  "PrefixRange p k \<longleftrightarrow> fst k = fst p \<and> take (length (snd p)) (snd k) = snd p"

datatype op = SetOp key bytes | ClearOp key

datatype logline = Line string | KeyLine string key

datatype error = Err string | Panic string | Fatal string

text \<open>
  The world of one server process: the committed store, the write sets of the committed
  transactions in commit order, the outcome of the coming store operations (\<open>Some e\<close>: the
  operation fails with the FoundationDB error \<open>e\<close>; an exhausted list: no more failures),
  the identifiers \<^verbatim>\<open>uuid.New()\<close> is going to return, and the lines written by \<^verbatim>\<open>log\<close>.
\<close>

record world =
  kv :: store
  history :: "op list list"
  faults :: "string option list"
  uuids :: "string list"
  logs :: "logline list"

definition next_fault :: "world \<Rightarrow> string option \<times> world" where
  "next_fault w = (case faults w of [] \<Rightarrow> (None, w) | f # fs \<Rightarrow> (f, w\<lparr>faults := fs\<rparr>))"

definition directory_CreateOrOpen :: "world \<Rightarrow> string list \<Rightarrow> world \<times> (string + subspace)" where
  "directory_CreateOrOpen w path =
     (case next_fault w of
        (Some e, w') \<Rightarrow> (w', Inl e)
      | (None, w') \<Rightarrow> (w', Inr (path, [])))"

text \<open>\<^verbatim>\<open>log.Fatal(err)\<close> writes the line and exits the process.\<close>

definition log_Fatal :: "world \<Rightarrow> string \<Rightarrow> world \<times> (error + 'a)" where
  "log_Fatal w e = (w\<lparr>logs := logs w @ [Line e]\<rparr>, Inl (Fatal e))"

text \<open>
  A transaction in progress: the world (for the log and the identifier source, which the
  closure reaches while it runs), the store as the transaction sees it (its own writes
  included) and the writes made so far.
\<close>

record tstate =
  env :: world
  view :: store
  wlog :: "op list"

definition tr_Get :: "tstate \<Rightarrow> key \<Rightarrow> bytes option" where
  "tr_Get tr k = map_of (view tr) k"

definition tr_Set :: "tstate \<Rightarrow> key \<Rightarrow> bytes \<Rightarrow> tstate" where
  "tr_Set tr k v = tr\<lparr>view := AList.update k v (view tr), wlog := wlog tr @ [SetOp k v]\<rparr>"

definition tr_Clear :: "tstate \<Rightarrow> key \<Rightarrow> tstate" where
  "tr_Clear tr k = tr\<lparr>view := AList.delete k (view tr), wlog := wlog tr @ [ClearOp k]\<rparr>"

definition tr_GetRange :: "tstate \<Rightarrow> (key \<Rightarrow> bool) \<Rightarrow> (key \<times> bytes) list" where
  "tr_GetRange tr r = sort_key fst (filter (\<lambda>e. r (fst e)) (view tr))"

definition tr_log :: "tstate \<Rightarrow> logline \<Rightarrow> tstate" where
  "tr_log tr l = tr\<lparr>env := (env tr)\<lparr>logs := logs (env tr) @ [l]\<rparr>\<rparr>"

text \<open>
  \<^verbatim>\<open>db.Transact(f)\<close>. Every closure of the engine starts with a read, and a failing store makes
  that read fail: the binding turns the failure into the returned error and nothing of the
  closure takes effect. Otherwise the closure runs; when it returns an error (or panics)
  nothing is committed, and when it returns normally its writes are committed together.
  Retries of the binding and failures at commit time are outside this model.
\<close>

definition Transact :: "world \<Rightarrow> (tstate \<Rightarrow> tstate \<times> (error + 'a)) \<Rightarrow> world \<times> (error + 'a)" where
  "Transact w f =
     (case next_fault w of
        (Some e, w1) \<Rightarrow> (w1, Inl (Err e))
      | (None, w1) \<Rightarrow>
          (case f \<lparr>env = w1, view = kv w1, wlog = []\<rparr> of
             (tr, Inl e) \<Rightarrow> (env tr, Inl e)
           | (tr, Inr r) \<Rightarrow>
               ((env tr)\<lparr>kv := view tr, history := history (env tr) @ [wlog tr]\<rparr>, Inr r)))"

definition ReadTransact :: "world \<Rightarrow> (tstate \<Rightarrow> tstate \<times> (error + 'a)) \<Rightarrow> world \<times> (error + 'a)" where
  "ReadTransact w f =
     (case next_fault w of
        (Some e, w1) \<Rightarrow> (w1, Inl (Err e))
      | (None, w1) \<Rightarrow>
          (case f \<lparr>env = w1, view = kv w1, wlog = []\<rparr> of
             (tr, Inl e) \<Rightarrow> (env tr, Inl e)
           | (tr, Inr r) \<Rightarrow> (env tr, Inr r)))"

text \<open>\<^verbatim>\<open>fmt.Errorf("...: %s", err)\<close> around a returned error; a panic is not a returned error.\<close>

fun Errorf :: "string \<Rightarrow> error \<Rightarrow> error" where
  "Errorf p (Err e) = Err (p @ e)"
| "Errorf p e = e"

section \<open>The catalog\<close>

record tableDefinition =
  Name :: string
  ColumnNames :: "string list"
  ColumnTypes :: "string list"

text \<open>
  The loop of \<^verbatim>\<open>getTableDefinition\<close> over the scanned catalog keys: \<^verbatim>\<open>t[1].(string)\<close> is the
  column name, the value is the type.
\<close>

fun getTableDefinition_loop ::
  "subspace \<Rightarrow> (key \<times> bytes) list \<Rightarrow> tableDefinition \<Rightarrow> error + tableDefinition" where
  "getTableDefinition_loop tableSS [] tbl = Inr tbl"
| "getTableDefinition_loop tableSS ((k, v) # ri) tbl =
     (let t = Unpack tableSS k in
      if length t \<le> 1 then Inl (Panic ''index out of range'')
      else getTableDefinition_loop tableSS ri
             (tbl\<lparr>ColumnNames := ColumnNames tbl @ [t ! 1],
                  ColumnTypes := ColumnTypes tbl @ [v]\<rparr>))"

definition getTableDefinition :: "world \<Rightarrow> string \<Rightarrow> world \<times> (error + tableDefinition)" where
  "getTableDefinition w name =
     (case directory_CreateOrOpen w [''catalog''] of
        (w1, Inl e) \<Rightarrow> log_Fatal w1 e
      | (w1, Inr catalogDir) \<Rightarrow>
          (let tableSS = Sub catalogDir ''table'' in
           case ReadTransact w1
                  (\<lambda>rtr. (rtr, getTableDefinition_loop tableSS
                                 (tr_GetRange rtr (subspace_range (Sub tableSS name)))
                                 \<lparr>Name = name, ColumnNames = [], ColumnTypes = []\<rparr>)) of
             (w2, Inl e) \<Rightarrow> (w2, Inl (Errorf ''could not get table defn: '' e))
           | (w2, Inr tbl) \<Rightarrow> (w2, Inr tbl)))"

section \<open>The parsed statements\<close>

text \<open>
  The parts of the parser's syntax tree that the engine reads. A getter of the parser's
  generated code returns nil for a node of another kind; the constructors \<open>OtherElt\<close>,
  \<open>NotList\<close>, \<open>OtherNode\<close>, \<open>OtherVal\<close>, \<open>OtherFrom\<close> and \<open>OtherTarget\<close> stand for
  those nodes.
\<close>

datatype table_elt = ColumnDef string "string list" | OtherElt

datatype val = Str string | Ival int | OtherVal

datatype node = AConst val | OtherNode

datatype vlist = ListNode "node list" | NotList

datatype from_item = RangeVar string | OtherFrom

datatype target = ColumnRef string | OtherTarget

datatype CreateStmt = CreateStmt string "table_elt list"

datatype InsertStmt = InsertStmt string "vlist list option"

datatype DeleteStmt = DeleteStmt string

datatype SelectStmt = SelectStmt "from_item list" "target list"

datatype stmt = Create CreateStmt | Insert InsertStmt | Delete DeleteStmt | Select SelectStmt | Other

section \<open>CREATE TABLE\<close>

text \<open>The loop that builds \<^verbatim>\<open>columnType\<close> from \<^verbatim>\<open>cd.TypeName.Names\<close>.\<close>

fun columnType_loop :: "string list \<Rightarrow> string \<Rightarrow> string" where
  "columnType_loop [] columnType = columnType"
| "columnType_loop (n # ns) columnType =
     columnType_loop ns ((if columnType \<noteq> [] then columnType @ ''.'' else columnType) @ n)"

fun executeCreate_elts ::
  "subspace \<Rightarrow> string \<Rightarrow> table_elt list \<Rightarrow> tstate \<Rightarrow> tstate \<times> (error + unit)" where
  "executeCreate_elts tableSS name [] tr = (tr, Inr ())"
| "executeCreate_elts tableSS name (OtherElt # cs) tr =
     (tr, Inl (Panic ''nil pointer dereference''))"
| "executeCreate_elts tableSS name (ColumnDef Colname Names # cs) tr =
     executeCreate_elts tableSS name cs
       (tr_Set tr (Pack tableSS [name, Colname]) (columnType_loop Names []))"

definition executeCreate_txn ::
  "subspace \<Rightarrow> string \<Rightarrow> table_elt list \<Rightarrow> tstate \<Rightarrow> tstate \<times> (error + unit)" where
  "executeCreate_txn tableSS name elts tr =
     (if tr_Get tr (Pack tableSS [name]) \<noteq> None
      then (tr_log tr (Line (''Table '' @ name @ '' already exists'')), Inr ())
      else executeCreate_elts tableSS name elts (tr_Set tr (Pack tableSS [name]) []))"

fun executeCreate :: "world \<Rightarrow> CreateStmt \<Rightarrow> world \<times> (error + unit)" where
  "executeCreate w (CreateStmt Relname TableElts) =
     (case directory_CreateOrOpen w [''catalog''] of
        (w1, Inl e) \<Rightarrow> log_Fatal w1 e
      | (w1, Inr catalogDir) \<Rightarrow>
          (case Transact w1 (executeCreate_txn (Sub catalogDir ''table'') Relname TableElts) of
             (w2, Inl e) \<Rightarrow> (w2, Inl (Errorf ''could not create table: '' e))
           | (w2, Inr u) \<Rightarrow> (w2, Inr ())))"

section \<open>INSERT\<close>

text \<open>\<^verbatim>\<open>json.Marshal(i.Ival)\<close>: the decimal text of the integer.\<close>

function show_nat :: "nat \<Rightarrow> string" where
  "show_nat n = (if n < 10 then [''0123456789'' ! n] else show_nat (n div 10) @ [''0123456789'' ! (n mod 10)])"
  by pat_completeness auto
termination
  by (relation "measure id") auto

definition json_Marshal :: "int \<Rightarrow> bytes" where
  "json_Marshal i = (if i < 0 then ''-'' @ show_nat (nat (- i)) else show_nat (nat i))"

text \<open>
  The four statements both value branches of \<^verbatim>\<open>executeInsert\<close> share: the column-layout key,
  its log line, the row-layout key, its log line.
\<close>

definition executeInsert_cell ::
  "subspace \<Rightarrow> string \<Rightarrow> tableDefinition \<Rightarrow> string \<Rightarrow> nat \<Rightarrow> bytes \<Rightarrow> tstate \<Rightarrow> tstate" where
  "executeInsert_cell tableDataSS tblName tbl rid columnIndex bs tr =
     (let ck = Pack tableDataSS [tblName, ''c'', ColumnNames tbl ! columnIndex, rid];
          rk = Pack tableDataSS [tblName, ''r'', rid, ColumnNames tbl ! columnIndex]
      in tr_log (tr_Set (tr_log (tr_Set tr ck bs) (KeyLine ''Inserted key c: '' ck)) rk bs)
                (KeyLine ''Inserted key r: '' rk))"

text \<open>
  The loop over the values of one tuple. \<^verbatim>\<open>tbl.ColumnNames[columnIndex]\<close> panics out of range.
  A value that is neither a string nor an integer constant ends the loop with the error
  \<^verbatim>\<open>unknown value type: %s\<close>; the rendering of the node after the colon is left out of the
  message here.
\<close>

fun executeInsert_items ::
  "subspace \<Rightarrow> string \<Rightarrow> tableDefinition \<Rightarrow> string \<Rightarrow> int \<Rightarrow> node list \<Rightarrow> nat \<Rightarrow> tstate
     \<Rightarrow> tstate \<times> (error + unit)" where
  "executeInsert_items tableDataSS tblName tbl rid maxColumnIndex [] columnIndex tr = (tr, Inr ())"
| "executeInsert_items tableDataSS tblName tbl rid maxColumnIndex (AConst (Str s) # items) columnIndex tr =
     (if length (ColumnNames tbl) \<le> columnIndex then (tr, Inl (Panic ''index out of range''))
      else executeInsert_items tableDataSS tblName tbl rid maxColumnIndex items
             (if int columnIndex < maxColumnIndex then columnIndex + 1 else columnIndex)
             (executeInsert_cell tableDataSS tblName tbl rid columnIndex s tr))"
| "executeInsert_items tableDataSS tblName tbl rid maxColumnIndex (AConst (Ival i) # items) columnIndex tr =
     (if length (ColumnNames tbl) \<le> columnIndex then (tr, Inl (Panic ''index out of range''))
      else executeInsert_items tableDataSS tblName tbl rid maxColumnIndex items
             (if int columnIndex < maxColumnIndex then columnIndex + 1 else columnIndex)
             (executeInsert_cell tableDataSS tblName tbl rid columnIndex (json_Marshal i) tr))"
| "executeInsert_items tableDataSS tblName tbl rid maxColumnIndex (value # items) columnIndex tr =
     (tr, Inl (Err ''unknown value type''))"

text \<open>
  The loop over \<^verbatim>\<open>slct.ValuesLists\<close>. \<^verbatim>\<open>uuid.New()\<close> panics when the random source fails,
  which is an exhausted \<open>uuids\<close> here. The row id \<^verbatim>\<open>id\<close> of the source is \<open>rid\<close>.
\<close>

fun executeInsert_lists ::
  "subspace \<Rightarrow> string \<Rightarrow> tableDefinition \<Rightarrow> vlist list \<Rightarrow> tstate \<Rightarrow> tstate \<times> (error + unit)" where
  "executeInsert_lists tableDataSS tblName tbl [] tr = (tr, Inr ())"
| "executeInsert_lists tableDataSS tblName tbl (values # rest) tr =
     (case uuids (env tr) of
        [] \<Rightarrow> (tr, Inl (Panic ''uuid''))
      | rid # ids \<Rightarrow>
          (let tr0 = tr\<lparr>env := (env tr)\<lparr>uuids := ids\<rparr>\<rparr>;
               maxColumnIndex = int (length (ColumnNames tbl)) - 1
           in case values of
                NotList \<Rightarrow> (tr0, Inl (Panic ''nil pointer dereference''))
              | ListNode Items \<Rightarrow>
                  (case executeInsert_items tableDataSS tblName tbl rid maxColumnIndex Items 0 tr0 of
                     (tr1, Inl e) \<Rightarrow> (tr1, Inl e)
                   | (tr1, Inr u) \<Rightarrow> executeInsert_lists tableDataSS tblName tbl rest tr1)))"

definition executeInsert_txn ::
  "key \<Rightarrow> subspace \<Rightarrow> string \<Rightarrow> tableDefinition \<Rightarrow> vlist list option \<Rightarrow> tstate
     \<Rightarrow> tstate \<times> (error + unit)" where
  "executeInsert_txn tableKey tableDataSS tblName tbl slct tr =
     (if tr_Get tr tableKey = None
      then (tr_log tr (Line (''Table '' @ tblName @ '' does not exist'')), Inr ())
      else case slct of
             None \<Rightarrow> (tr, Inl (Panic ''nil pointer dereference''))
           | Some ValuesLists \<Rightarrow> executeInsert_lists tableDataSS tblName tbl ValuesLists tr)"

fun executeInsert :: "world \<Rightarrow> InsertStmt \<Rightarrow> world \<times> (error + unit)" where
  "executeInsert w (InsertStmt tblName slct) =
     (case getTableDefinition w tblName of
        (w1, Inl e) \<Rightarrow> (w1, Inl e)
      | (w1, Inr tbl) \<Rightarrow>
     (case directory_CreateOrOpen w1 [''catalog''] of
        (w2, Inl e) \<Rightarrow> log_Fatal w2 e
      | (w2, Inr catalogDir) \<Rightarrow>
     (case directory_CreateOrOpen w2 [''data''] of
        (w3, Inl e) \<Rightarrow> log_Fatal w3 e
      | (w3, Inr dataDir) \<Rightarrow>
     (case Transact w3 (executeInsert_txn (Pack (Sub catalogDir ''table'') [tblName])
                          (Sub dataDir ''table_data'') tblName tbl slct) of
        (w4, Inl e) \<Rightarrow> (w4, Inl (Errorf ''could not insert into the table table: '' e))
      | (w4, Inr u) \<Rightarrow> (w4, Inr ())))))"

section \<open>DELETE\<close>

fun executeDelete_loop :: "(key \<times> bytes) list \<Rightarrow> tstate \<Rightarrow> tstate" where
  "executeDelete_loop [] tr = tr"
| "executeDelete_loop ((k, v) # ri) tr = executeDelete_loop ri (tr_Clear tr k)"

definition executeDelete_txn ::
  "key \<Rightarrow> subspace \<Rightarrow> string \<Rightarrow> tstate \<Rightarrow> tstate \<times> (error + unit)" where
  "executeDelete_txn tableKey tableDataSS Relname tr =
     (if tr_Get tr tableKey = None
      then (tr_log tr (Line (''Table '' @ Relname @ '' does not exist'')), Inr ())
      else (executeDelete_loop (tr_GetRange tr (subspace_range tableDataSS)) tr, Inr ()))"

fun executeDelete :: "world \<Rightarrow> DeleteStmt \<Rightarrow> world \<times> (error + unit)" where
  "executeDelete w (DeleteStmt Relname) =
     (case directory_CreateOrOpen w [''catalog''] of
        (w1, Inl e) \<Rightarrow> log_Fatal w1 e
      | (w1, Inr catalogDir) \<Rightarrow>
     (case directory_CreateOrOpen w1 [''data''] of
        (w2, Inl e) \<Rightarrow> log_Fatal w2 e
      | (w2, Inr dataDir) \<Rightarrow>
     (case Transact w2 (executeDelete_txn (Pack (Sub catalogDir ''table'') [Relname])
                          (Sub dataDir ''table_data'') Relname) of
        (w3, Inl e) \<Rightarrow> (w3, Inl (Errorf ''could not delete table: '' e))
      | (w3, Inr u) \<Rightarrow> (w3, Inr ()))))"

section \<open>SELECT\<close>

record pgResult =
  fieldNames :: "string list"
  fieldTypes :: "string list"
  rows :: "string list list"

text \<open>
  The search for the type of a target in \<^verbatim>\<open>tbl.ColumnNames\<close>, with \<^verbatim>\<open>tbl.ColumnTypes[i]\<close>
  panicking out of range.
\<close>

fun fieldType_loop :: "tableDefinition \<Rightarrow> string \<Rightarrow> nat \<Rightarrow> string list \<Rightarrow> string \<Rightarrow> error + string" where
  "fieldType_loop tbl fieldName i [] fieldType = Inr fieldType"
| "fieldType_loop tbl fieldName i (cn # cns) fieldType =
     (if cn = fieldName
      then (if length (ColumnTypes tbl) \<le> i then Inl (Panic ''index out of range'')
            else fieldType_loop tbl fieldName (Suc i) cns (ColumnTypes tbl ! i))
      else fieldType_loop tbl fieldName (Suc i) cns fieldType)"

text \<open>
  The loop over \<^verbatim>\<open>stmt.TargetList\<close>, the same text in \<^verbatim>\<open>executeSelect\<close> and in
  \<^verbatim>\<open>executeSelectColumnar\<close>. A target that is no plain column reference makes
  \<^verbatim>\<open>c.GetResTarget().Val.GetColumnRef().Fields[0].GetString_().Str\<close> panic.
\<close>

fun select_targets :: "tableDefinition \<Rightarrow> target list \<Rightarrow> pgResult \<Rightarrow> error + pgResult" where
  "select_targets tbl [] results = Inr results"
| "select_targets tbl (OtherTarget # cs) results = Inl (Panic ''nil pointer dereference'')"
| "select_targets tbl (ColumnRef fieldName # cs) results =
     (case fieldType_loop tbl fieldName 0 (ColumnNames tbl) [] of
        Inl e \<Rightarrow> Inl e
      | Inr fieldType \<Rightarrow>
          if fieldType = [] then Inl (Err (''unknown field: '' @ fieldName))
          else select_targets tbl cs
                 (results\<lparr>fieldNames := fieldNames results @ [fieldName],
                          fieldTypes := fieldTypes results @ [fieldType]\<rparr>))"

text \<open>\<^verbatim>\<open>log.Println("fetching row metadata: ", a, b, c, d)\<close> puts a blank between operands.\<close>

definition fetching_line :: "string \<Rightarrow> string \<Rightarrow> string \<Rightarrow> string \<Rightarrow> logline" where
  "fetching_line a b c d =
     Line (''fetching row metadata: '' @ '' '' @ a @ '' '' @ b @ '' '' @ c @ '' '' @ d)"

text \<open>The scan loop of the row-layout \<^verbatim>\<open>executeSelect\<close>.\<close>

fun executeSelect_loop ::
  "subspace \<Rightarrow> pgResult \<Rightarrow> (key \<times> bytes) list \<Rightarrow> string list list \<Rightarrow> nat \<Rightarrow> string list \<Rightarrow> tstate
     \<Rightarrow> tstate \<times> (error + string list list \<times> string list)" where
  "executeSelect_loop tableDataSS results [] targetRows rowIndex columnOrder tr =
     (tr, Inr (targetRows, columnOrder))"
| "executeSelect_loop tableDataSS results ((k, v) # ri) targetRows rowIndex columnOrder tr =
     (let t = Unpack tableDataSS k in
      if length t < 4 then (tr, Inl (Panic ''index out of range''))
      else if length targetRows \<le> rowIndex
      then (tr_log tr (fetching_line (t ! 0) (t ! 1) (t ! 3) (t ! 2)), Inl (Panic ''index out of range''))
      else if length (targetRows ! rowIndex) = length (fieldNames results)
      then executeSelect_loop tableDataSS results ri
             ((targetRows @ [[]])[rowIndex + 1 := (targetRows @ [[]]) ! (rowIndex + 1) @ [v]])
             (rowIndex + 1)
             (if length columnOrder < length (fieldNames results) then columnOrder @ [t ! 3]
              else columnOrder)
             (tr_log tr (fetching_line (t ! 0) (t ! 1) (t ! 3) (t ! 2)))
      else executeSelect_loop tableDataSS results ri
             (targetRows[rowIndex := targetRows ! rowIndex @ [v]])
             rowIndex
             (if length columnOrder < length (fieldNames results) then columnOrder @ [t ! 3]
              else columnOrder)
             (tr_log tr (fetching_line (t ! 0) (t ! 1) (t ! 3) (t ! 2))))"

definition executeSelect_txn ::
  "subspace \<Rightarrow> tableDefinition \<Rightarrow> pgResult \<Rightarrow> tstate \<Rightarrow> tstate \<times> (error + pgResult)" where
  "executeSelect_txn tableDataSS tbl results tr =
     (case executeSelect_loop tableDataSS results
             (tr_GetRange tr (PrefixRange (Pack tableDataSS [Name tbl, ''r''])))
             [[]] 0 [] tr of
        (tr1, Inl e) \<Rightarrow> (tr1, Inl e)
      | (tr1, Inr (targetRows, columnOrder)) \<Rightarrow>
          (tr1, Inr (results\<lparr>fieldNames := columnOrder,
                             rows := filter (\<lambda>row. 0 < length row) (targetRows @ [[]])\<rparr>)))"

text \<open>
  \<^verbatim>\<open>_, _ = pe.db.Transact(...)\<close>: the error of the transaction is dropped and \<^verbatim>\<open>results\<close> is
  returned as it stands; a panic of the closure passes through.
\<close>

definition select_result :: "pgResult \<Rightarrow> world \<times> (error + pgResult) \<Rightarrow> world \<times> (error + pgResult)" where
  "select_result results r =
     (case r of
        (w, Inl (Err e)) \<Rightarrow> (w, Inr results)
      | (w, Inl e) \<Rightarrow> (w, Inl e)
      | (w, Inr results') \<Rightarrow> (w, Inr results'))"

fun executeSelect :: "world \<Rightarrow> SelectStmt \<Rightarrow> world \<times> (error + pgResult)" where
  "executeSelect w (SelectStmt [] TargetList) = (w, Inl (Panic ''index out of range''))"
| "executeSelect w (SelectStmt (OtherFrom # fc) TargetList) =
     (w, Inl (Panic ''nil pointer dereference''))"
| "executeSelect w (SelectStmt (RangeVar tblName # fc) TargetList) =
     (case getTableDefinition w tblName of
        (w1, Inl e) \<Rightarrow> (w1, Inl e)
      | (w1, Inr tbl) \<Rightarrow>
     (case select_targets tbl TargetList \<lparr>fieldNames = [], fieldTypes = [], rows = []\<rparr> of
        Inl e \<Rightarrow> (w1, Inl e)
      | Inr results \<Rightarrow>
     (case directory_CreateOrOpen w1 [''data''] of
        (w2, Inl e) \<Rightarrow> log_Fatal w2 e
      | (w2, Inr dataDir) \<Rightarrow>
          select_result results
            (Transact w2 (executeSelect_txn (Sub dataDir ''table_data'') tbl results)))))"

text \<open>The inner loop of the column-layout scan over \<^verbatim>\<open>results.fieldNames\<close>.\<close>

fun columnar_targets ::
  "string list \<Rightarrow> string \<Rightarrow> bytes \<Rightarrow> int \<Rightarrow> string list list \<Rightarrow> error + string list list" where
  "columnar_targets [] currentColumnName v rowIndex targetRows = Inr targetRows"
| "columnar_targets (target # ts) currentColumnName v rowIndex targetRows =
     (if target = currentColumnName
      then (if rowIndex < 0 \<or> int (length targetRows) \<le> rowIndex
            then Inl (Panic ''index out of range'')
            else columnar_targets ts currentColumnName v rowIndex
                   (targetRows[nat rowIndex := targetRows ! nat rowIndex @ [v]]))
      else columnar_targets ts currentColumnName v rowIndex targetRows)"

fun executeSelectColumnar_loop ::
  "subspace \<Rightarrow> pgResult \<Rightarrow> (key \<times> bytes) list \<Rightarrow> string list \<Rightarrow> string list list \<Rightarrow> int \<Rightarrow> string
     \<Rightarrow> tstate \<Rightarrow> tstate \<times> (error + string list list \<times> string list)" where
  "executeSelectColumnar_loop tableDataSS results [] columnOrder targetRows rowIndex lastColumn tr =
     (tr, Inr (targetRows, columnOrder))"
| "executeSelectColumnar_loop tableDataSS results ((k, v) # ri) columnOrder targetRows rowIndex lastColumn tr =
     (let t = Unpack tableDataSS k in
      if length t < 4 then (tr, Inl (Panic ''index out of range''))
      else if t ! 2 \<noteq> lastColumn
      then (case columnar_targets (fieldNames results) (t ! 2) v 0 targetRows of
              Inl e \<Rightarrow> (tr_log tr (fetching_line (t ! 0) (t ! 1) (t ! 2) (t ! 3)), Inl e)
            | Inr targetRows' \<Rightarrow>
                executeSelectColumnar_loop tableDataSS results ri (columnOrder @ [t ! 2])
                  targetRows' 1 (t ! 2)
                  (tr_log tr (fetching_line (t ! 0) (t ! 1) (t ! 2) (t ! 3))))
      else (case columnar_targets (fieldNames results) (t ! 2) v rowIndex (targetRows @ [[]]) of
              Inl e \<Rightarrow> (tr_log tr (fetching_line (t ! 0) (t ! 1) (t ! 2) (t ! 3)), Inl e)
            | Inr targetRows' \<Rightarrow>
                executeSelectColumnar_loop tableDataSS results ri columnOrder
                  targetRows' (rowIndex + 1) lastColumn
                  (tr_log tr (fetching_line (t ! 0) (t ! 1) (t ! 2) (t ! 3)))))"

definition executeSelectColumnar_txn ::
  "subspace \<Rightarrow> tableDefinition \<Rightarrow> pgResult \<Rightarrow> tstate \<Rightarrow> tstate \<times> (error + pgResult)" where
  "executeSelectColumnar_txn tableDataSS tbl results tr =
     (case executeSelectColumnar_loop tableDataSS results
             (tr_GetRange tr (PrefixRange (Pack tableDataSS [Name tbl, ''c''])))
             [] [[]] (- 1) [] tr of
        (tr1, Inl e) \<Rightarrow> (tr1, Inl e)
      | (tr1, Inr (targetRows, columnOrder)) \<Rightarrow>
          (tr1, Inr (results\<lparr>fieldNames := columnOrder,
                             rows := filter (\<lambda>row. 0 < length row) (targetRows @ [[]])\<rparr>)))"

fun executeSelectColumnar :: "world \<Rightarrow> SelectStmt \<Rightarrow> world \<times> (error + pgResult)" where
  "executeSelectColumnar w (SelectStmt [] TargetList) = (w, Inl (Panic ''index out of range''))"
| "executeSelectColumnar w (SelectStmt (OtherFrom # fc) TargetList) =
     (w, Inl (Panic ''nil pointer dereference''))"
| "executeSelectColumnar w (SelectStmt (RangeVar tblName # fc) TargetList) =
     (case getTableDefinition w tblName of
        (w1, Inl e) \<Rightarrow> (w1, Inl e)
      | (w1, Inr tbl) \<Rightarrow>
     (case select_targets tbl TargetList \<lparr>fieldNames = [], fieldTypes = [], rows = []\<rparr> of
        Inl e \<Rightarrow> (w1, Inl e)
      | Inr results \<Rightarrow>
     (case directory_CreateOrOpen w1 [''data''] of
        (w2, Inl e) \<Rightarrow> log_Fatal w2 e
      | (w2, Inr dataDir) \<Rightarrow>
          select_result results
            (Transact w2 (executeSelectColumnar_txn (Sub dataDir ''table_data'') tbl results)))))"

section \<open>Dispatch\<close>

fun execute :: "world \<Rightarrow> stmt list \<Rightarrow> world \<times> (error + unit)" where
  "execute w [] = (w, Inr ())"
| "execute w (Create c # stmts) = executeCreate w c"
| "execute w (Insert c # stmts) = executeInsert w c"
| "execute w (Delete c # stmts) = executeDelete w c"
| "execute w (Select c # stmts) =
     (case executeSelect w c of (w1, Inl e) \<Rightarrow> (w1, Inl e) | (w1, Inr r) \<Rightarrow> (w1, Inr ()))"
| "execute w (Other # stmts) = execute w stmts"

section \<open>The wire session\<close>

record config =
  columnar :: bool
  reset :: bool
  pgPort :: string

text \<open>
  The frames the server writes. A cell of a data row is \<^verbatim>\<open>json.Marshal(value)\<close> of a Go string;
  \<open>JSONString s\<close> stands for that encoding of \<open>s\<close>. \<open>RawBytes\<close> is a write outside the
  protocol's framing (the single byte that refuses SSL).
\<close>

datatype json = JSONString string

datatype frame =
    AuthenticationOk
  | ReadyForQuery char
  | CommandComplete string
  | RowDescription "(string \<times> nat) list"
  | DataRow "json list"
  | RawBytes string

datatype startup_msg = StartupMessage | SSLRequest | OtherStartup

datatype frontend_msg = Query string | Terminate | OtherMsg

text \<open>What the connection delivers next: a startup packet, a message, or a read error.\<close>

datatype incoming = Startup startup_msg | Message frontend_msg | RecvError string

record net_Conn =
  outbox :: "frame list"
  write_error :: "string option"
  closed :: bool

record pgServer =
  conn :: net_Conn
  db :: world
  cfg :: config

definition conn_Write :: "pgServer \<Rightarrow> frame list \<Rightarrow> pgServer \<times> string option" where
  "conn_Write pgs buf =
     (case write_error (conn pgs) of
        Some e \<Rightarrow> (pgs, Some e)
      | None \<Rightarrow> (pgs\<lparr>conn := (conn pgs)\<lparr>outbox := outbox (conn pgs) @ buf\<rparr>\<rparr>, None))"

definition log_Println :: "pgServer \<Rightarrow> string \<Rightarrow> pgServer" where
  "log_Println pgs l = pgs\<lparr>db := (db pgs)\<lparr>logs := logs (db pgs) @ [Line l]\<rparr>\<rparr>"

definition dataTypeOIDMap :: "string \<Rightarrow> nat" where
  "dataTypeOIDMap ty =
     (case map_of [(''text'', 25), (''pg_catalog.int4'', 23)] ty of None \<Rightarrow> 0 | Some oid \<Rightarrow> oid)"

text \<open>\<^verbatim>\<open>done\<close> of the server (the name alone is a keyword of the proof language).\<close>

definition done_msg :: "pgServer \<Rightarrow> frame list \<Rightarrow> string \<Rightarrow> pgServer" where
  "done_msg pgs buf msg =
     (case conn_Write pgs (buf @ [CommandComplete msg, ReadyForQuery CHR ''I'']) of
        (pgs1, Some e) \<Rightarrow> log_Println pgs1 (''failed to write query response: '' @ e)
      | (pgs1, None) \<Rightarrow> pgs1)"

text \<open>
  \<^verbatim>\<open>writePgResult\<close>: the loop over \<^verbatim>\<open>res.fieldNames\<close> reads \<^verbatim>\<open>res.fieldTypes[i]\<close>, which panics
  out of range; a type that is not in \<^verbatim>\<open>dataTypeOIDMap\<close> gives the OID 0. The cells are Go
  strings, for which \<^verbatim>\<open>json.Marshal\<close> returns no error.
\<close>

fun writePgResult_fields :: "pgResult \<Rightarrow> nat \<Rightarrow> string list \<Rightarrow> (string \<times> nat) list
     \<Rightarrow> error + (string \<times> nat) list" where
  "writePgResult_fields res i [] Fields = Inr Fields"
| "writePgResult_fields res i (field # fs) Fields =
     (if length (fieldTypes res) \<le> i then Inl (Panic ''index out of range'')
      else writePgResult_fields res (Suc i) fs
             (Fields @ [(field, dataTypeOIDMap (fieldTypes res ! i))]))"

definition writePgResult :: "pgServer \<Rightarrow> pgResult \<Rightarrow> pgServer \<times> (error + unit)" where
  "writePgResult pgs res =
     (case writePgResult_fields res 0 (fieldNames res) [] of
        Inl e \<Rightarrow> (pgs, Inl e)
      | Inr Fields \<Rightarrow>
          (done_msg pgs (RowDescription Fields # map (\<lambda>row. DataRow (map JSONString row)) (rows res))
                (''SELECT '' @ show_nat (length (rows res))), Inr ()))"

text \<open>
  \<^verbatim>\<open>handleStartupMessage\<close> and \<^verbatim>\<open>handleMessage\<close> read the connection; the rest of what the
  connection delivers is passed on. A connection that has nothing more to deliver gives the
  read error \<^verbatim>\<open>EOF\<close>.
\<close>

fun handleStartupMessage :: "pgServer \<Rightarrow> incoming list \<Rightarrow> (pgServer \<times> incoming list) \<times> (error + unit)" where
  "handleStartupMessage pgs [] =
     ((pgs, []), Inl (Err (''error receiving startup message: '' @ ''EOF'')))"
| "handleStartupMessage pgs (Startup StartupMessage # inbox) =
     (case conn_Write pgs [AuthenticationOk, ReadyForQuery CHR ''I''] of
        (pgs1, Some e) \<Rightarrow> ((pgs1, inbox), Inl (Err (''error sending ready for query: '' @ e)))
      | (pgs1, None) \<Rightarrow> ((pgs1, inbox), Inr ()))"
| "handleStartupMessage pgs (Startup SSLRequest # inbox) =
     (case conn_Write pgs [RawBytes ''N''] of
        (pgs1, Some e) \<Rightarrow> ((pgs1, inbox), Inl (Err (''error sending deny SSL request: '' @ e)))
      | (pgs1, None) \<Rightarrow> handleStartupMessage pgs1 inbox)"
| "handleStartupMessage pgs (Startup OtherStartup # inbox) =
     ((pgs, inbox), Inl (Err ''unknown startup message''))"
| "handleStartupMessage pgs (RecvError e # inbox) =
     ((pgs, inbox), Inl (Err (''error receiving startup message: '' @ e)))"
| "handleStartupMessage pgs (Message m # inbox) =
     ((pgs, inbox), Inl (Err (''error receiving startup message: '' @ ''malformed packet'')))"

text \<open>
  \<^verbatim>\<open>strings.ToUpper(strings.Split(t.String, " ")[0])\<close>: the text before the first blank, in
  upper case (the letters of ASCII; the keywords that start a statement have no others).
\<close>

definition ToUpper :: "string \<Rightarrow> string" where
  "ToUpper s =
     map (\<lambda>c. case map_of (zip ''abcdefghijklmnopqrstuvwxyz'' ''ABCDEFGHIJKLMNOPQRSTUVWXYZ'') c of
                 None \<Rightarrow> c | Some u \<Rightarrow> u) s"

definition first_word :: "string \<Rightarrow> string" where
  "first_word s = takeWhile (\<lambda>c. c \<noteq> CHR '' '') s"

text \<open>
  \<^verbatim>\<open>handleMessage\<close>, with the SQL parser as a parameter (\<open>Inl\<close>: the parser rejects the text).
  The message of a parse error formats \<^verbatim>\<open>receive_err\<close>, which is nil there. The result of
  \<^verbatim>\<open>pe.execute(*stmts)\<close> is not looked at; only a panic or \<^verbatim>\<open>log.Fatal\<close> inside it keeps
  \<^verbatim>\<open>done\<close> from running. The rendering of the message in the last error is left out.
\<close>

fun handleMessage ::
  "(string \<Rightarrow> string + stmt list) \<Rightarrow> pgServer \<Rightarrow> incoming list
     \<Rightarrow> (pgServer \<times> incoming list) \<times> (error + unit)" where
  "handleMessage parse pgs [] = ((pgs, []), Inl (Err (''error receiving message: '' @ ''EOF'')))"
| "handleMessage parse pgs (RecvError e # inbox) =
     ((pgs, inbox), Inl (Err (''error receiving message: '' @ e)))"
| "handleMessage parse pgs (Startup m # inbox) =
     ((pgs, inbox), Inl (Err (''error receiving message: '' @ ''malformed packet'')))"
| "handleMessage parse pgs (Message Terminate # inbox) = ((pgs, inbox), Inr ())"
| "handleMessage parse pgs (Message OtherMsg # inbox) =
     ((pgs, inbox), Inl (Err ''received message other than Query from client''))"
| "handleMessage parse pgs (Message (Query String) # inbox) =
     (case parse String of
        Inl parse_err \<Rightarrow> ((pgs, inbox), Inl (Err ''error parsing query: %!s(<nil>)''))
      | Inr stmts \<Rightarrow>
          if 1 < length stmts then ((pgs, inbox), Inl (Err ''only make one request at a time''))
          else (case stmts of
                  [] \<Rightarrow> ((pgs, inbox), Inl (Panic ''index out of range''))
                | Select s # rest \<Rightarrow>
                    (case (if columnar (cfg pgs) then executeSelectColumnar (db pgs) s
                           else executeSelect (db pgs) s) of
                       (w, Inl err) \<Rightarrow> ((pgs\<lparr>db := w\<rparr>, inbox), Inl err)
                     | (w, Inr res) \<Rightarrow>
                         (case writePgResult (pgs\<lparr>db := w\<rparr>) res of
                            (pgs1, r) \<Rightarrow> ((pgs1, inbox), r)))
                | stmt # rest \<Rightarrow>
                    (case execute (db pgs) stmts of
                       (w, Inl (Panic e)) \<Rightarrow> ((pgs\<lparr>db := w\<rparr>, inbox), Inl (Panic e))
                     | (w, Inl (Fatal e)) \<Rightarrow> ((pgs\<lparr>db := w\<rparr>, inbox), Inl (Fatal e))
                     | (w, r) \<Rightarrow>
                         ((done_msg (pgs\<lparr>db := w\<rparr>) [] (ToUpper (first_word String) @ '' ok''), inbox),
                          Inr ()))))"

text \<open>
  The loop of \<^verbatim>\<open>handle\<close>. A returned error is logged and ends the session; the deferred
  \<^verbatim>\<open>conn.Close()\<close> runs on that return and while a panic unwinds. \<^verbatim>\<open>log.Fatal\<close> exits the
  process at once. The second component is the panic or exit that ended the process, if any.
\<close>

definition handle_return :: "pgServer \<Rightarrow> error \<Rightarrow> pgServer \<times> error option" where
  "handle_return pgs e =
     (case e of
        Err m \<Rightarrow> ((log_Println pgs m)\<lparr>conn := (conn pgs)\<lparr>closed := True\<rparr>\<rparr>, None)
      | Panic m \<Rightarrow> (pgs\<lparr>conn := (conn pgs)\<lparr>closed := True\<rparr>\<rparr>, Some (Panic m))
      | Fatal m \<Rightarrow> (pgs, Some (Fatal m)))"

function handle_loop ::
  "(string \<Rightarrow> string + stmt list) \<Rightarrow> pgServer \<Rightarrow> incoming list \<Rightarrow> pgServer \<times> error option" where
  "handle_loop parse pgs inbox =
     (case handleMessage parse pgs inbox of
        ((pgs1, inbox1), Inl e) \<Rightarrow> handle_return pgs1 e
      | ((pgs1, inbox1), Inr u) \<Rightarrow> handle_loop parse pgs1 inbox1)"
  by pat_completeness auto
termination
proof (relation "measure (\<lambda>(parse, pgs, inbox). length inbox)")
  show "wf (measure (\<lambda>(parse, pgs, inbox). length inbox))"
    by simp
next
  fix parse :: "string \<Rightarrow> string + stmt list"
  fix pgs pgs1 :: pgServer and inbox inbox1 :: "incoming list" and x y u
  assume "(x, y) = handleMessage parse pgs inbox" "(pgs1, inbox1) = x" "y = Inr u"
  then have "handleMessage parse pgs inbox = ((pgs1, inbox1), Inr u)"
    by (cases "handleMessage parse pgs inbox") simp
  then have "length inbox1 < length inbox"
    by (induction parse pgs inbox rule: handleMessage.induct)
       (auto split: sum.splits if_splits list.splits stmt.splits prod.splits error.splits)
  then show "((parse, pgs1, inbox1), (parse, pgs, inbox))
               \<in> measure (\<lambda>(parse, pgs, inbox). length inbox)"
    by simp
qed

declare handle_loop.simps [simp del]

definition handle ::
  "(string \<Rightarrow> string + stmt list) \<Rightarrow> pgServer \<Rightarrow> incoming list \<Rightarrow> pgServer \<times> error option" where
  "handle parse pgs inbox =
     (case handleStartupMessage pgs inbox of
        ((pgs1, inbox1), Inl e) \<Rightarrow> handle_return pgs1 e
      | ((pgs1, inbox1), Inr u) \<Rightarrow> handle_loop parse pgs1 inbox1)"

section \<open>Notions used to state the properties\<close>

text \<open>
  The next \<open>n\<close> store operations (directory openings and transactions) do not fail.
\<close>

definition no_fault :: "nat \<Rightarrow> world \<Rightarrow> bool" where
  "no_fault n w = list_all (\<lambda>f. f = None) (take n (faults w))"

text \<open>
  The effect of one committed write on the store.
\<close>

fun apply_op :: "store \<Rightarrow> op \<Rightarrow> store" where
  "apply_op st (SetOp k v) = AList.update k v st"
| "apply_op st (ClearOp k) = AList.delete k st"

text \<open>
  The key of a row-layout cell, \<^verbatim>\<open>tableDataSS.Pack(tuple.Tuple{tblName, "r", id, column})\<close>, and
  of a column-layout cell, \<^verbatim>\<open>tableDataSS.Pack(tuple.Tuple{tblName, "c", column, id})\<close>, with
  \<^verbatim>\<open>tableDataSS\<close> the subspace \<^verbatim>\<open>table_data\<close> of the directory \<^verbatim>\<open>data\<close>.
\<close>

definition row_layout_key :: "string \<Rightarrow> string \<Rightarrow> string \<Rightarrow> key" where
  "row_layout_key t rid col = ([''data''], [''table_data'', t, ''r'', rid, col])"

definition column_layout_key :: "string \<Rightarrow> string \<Rightarrow> string \<Rightarrow> key" where
  "column_layout_key t col rid = ([''data''], [''table_data'', t, ''c'', col, rid])"

text \<open>
  The two writes of one cell, in the order \<^verbatim>\<open>executeInsert\<close> makes them.
\<close>

definition cell_pair :: "string \<Rightarrow> string \<Rightarrow> string \<Rightarrow> bytes \<Rightarrow> op list" where
  "cell_pair t rid col v = [SetOp (column_layout_key t col rid) v, SetOp (row_layout_key t rid col) v]"

text \<open>
  The invariant of the two layouts, in the words of the specification: a row-layout cell of
  a table, row id and column is present exactly when the matching column-layout cell is, and
  both hold the same bytes.
\<close>

definition layouts_agree :: "store \<Rightarrow> bool" where
  "layouts_agree st \<longleftrightarrow>
     (\<forall>t rid col. map_of st (row_layout_key t rid col) = map_of st (column_layout_key t col rid))"

text \<open>
  The bytes stored for a value of a tuple: a string constant as it is, an integer constant as
  its decimal text; no other value is stored.
\<close>

fun encoded :: "node \<Rightarrow> bytes option" where
  "encoded (AConst (Str s)) = Some s"
| "encoded (AConst (Ival i)) = Some (json_Marshal i)"
| "encoded v = None"

text \<open>
  The writes of one tuple in the words of the specification: the value at position \<open>j\<close>
  goes, as a cell pair, to the column at position \<open>j\<close>, and a surplus value (a position
  beyond the columns) to the last column.
\<close>

definition tuple_writes :: "string \<Rightarrow> string list \<Rightarrow> string \<Rightarrow> node list \<Rightarrow> op list" where
  "tuple_writes t cols rid items =
     concat (map (\<lambda>(j, v). cell_pair t rid (if j < length cols then cols ! j else last cols)
                               (the (encoded v)))
                 (zip [0..<length items] items))"

text \<open>
  The type token in the words of the specification: the components joined with dots
  (\<^verbatim>\<open>strings.Join(names, ".")\<close>).
\<close>

fun join_dot :: "string list \<Rightarrow> string" where
  "join_dot [] = []"
| "join_dot (n # ns) = n @ concat (map (\<lambda>m. CHR ''.'' # m) ns)"

text \<open>
  A list cut into consecutive groups of \<open>n\<close> elements, the last group possibly shorter.
\<close>

function group_rows :: "nat \<Rightarrow> 'a list \<Rightarrow> 'a list list" where
  "group_rows n xs = (if n = 0 \<or> xs = [] then [] else take n xs # group_rows n (drop n xs))"
  by pat_completeness auto
termination
  by (relation "measure (\<lambda>(n, xs). length xs)") auto

declare group_rows.simps [simp del]

text \<open>
  The range scan of the row layout of a table: the entries whose key starts with
  \<^verbatim>\<open>(table, "r")\<close> in the subspace \<^verbatim>\<open>data/table_data\<close>, in key order.
\<close>

definition scan_row_layout :: "store \<Rightarrow> string \<Rightarrow> (key \<times> bytes) list" where
  "scan_row_layout st t =
     sort_key fst (filter (\<lambda>e. PrefixRange ([''data''], [''table_data'', t, ''r'']) (fst e)) st)"

text \<open>
  Worlds, statements and sessions of the examples: an empty store; the store after
  \<^verbatim>\<open>create table customer (age int, name text)\<close>; that store with the row
  \<^verbatim>\<open>(14, 'garry')\<close> of row id \<^verbatim>\<open>u1\<close>; a session on the second in row-layout mode; an INSERT
  of two tuples; the definition of the table.
\<close>

definition w_empty :: world where
  "w_empty = \<lparr>kv = [], history = [], faults = [], uuids = [''u1'', ''u2''], logs = []\<rparr>"

definition w_customer :: world where
  "w_customer =
     \<lparr>kv = [(([''catalog''], [''table'', ''customer'']), []),
            (([''catalog''], [''table'', ''customer'', ''age'']), ''pg_catalog.int4''),
            (([''catalog''], [''table'', ''customer'', ''name'']), ''text'')],
      history = [], faults = [], uuids = [''u1'', ''u2''], logs = []\<rparr>"

definition w_customer_row :: world where
  "w_customer_row =
     \<lparr>kv = [(([''catalog''], [''table'', ''customer'']), []),
            (([''catalog''], [''table'', ''customer'', ''age'']), ''pg_catalog.int4''),
            (([''catalog''], [''table'', ''customer'', ''name'']), ''text''),
            (([''data''], [''table_data'', ''customer'', ''c'', ''age'', ''u1'']), ''14''),
            (([''data''], [''table_data'', ''customer'', ''r'', ''u1'', ''age'']), ''14''),
            (([''data''], [''table_data'', ''customer'', ''c'', ''name'', ''u1'']), ''garry''),
            (([''data''], [''table_data'', ''customer'', ''r'', ''u1'', ''name'']), ''garry'')],
      history = [], faults = [], uuids = [''u2''], logs = []\<rparr>"

definition pgs_customer :: pgServer where
  "pgs_customer =
     \<lparr>conn = \<lparr>outbox = [], write_error = None, closed = False\<rparr>,
      db = w_customer,
      cfg = \<lparr>columnar = False, reset = False, pgPort = ''6000''\<rparr>\<rparr>"

definition insert_two :: InsertStmt where
  "insert_two = InsertStmt ''customer''
     (Some [ListNode [AConst (Ival 14), AConst (Str ''garry'')],
            ListNode [AConst (Ival 20), AConst (Str ''ted'')]])"

definition tbl_customer :: tableDefinition where
  "tbl_customer = \<lparr>Name = ''customer'', ColumnNames = [''age'', ''name''],
                    ColumnTypes = [''pg_catalog.int4'', ''text'']\<rparr>"

section \<open>Store operations: outcomes and what they leave unchanged\<close>

lemma next_fault_no_fault:
  "no_fault (Suc n) w \<Longrightarrow> next_fault w = (None, w\<lparr>faults := tl (faults w)\<rparr>)"
  by (cases "faults w") (simp_all add: next_fault_def no_fault_def)

lemma no_fault_tl:
  "no_fault (Suc n) w \<Longrightarrow> no_fault n (w\<lparr>faults := tl (faults w)\<rparr>)"
  by (cases "faults w") (simp_all add: no_fault_def)

text \<open>
  The outcome of the next store operation is the head of \<open>faults\<close>.
\<close>

lemma next_fault_update:
  "next_fault (w\<lparr>faults := F\<rparr>) = ((case F of [] \<Rightarrow> None | f # fs \<Rightarrow> f), w\<lparr>faults := tl F\<rparr>)"
  by (cases F) (simp_all add: next_fault_def)

lemma no_fault_drop:
  assumes "no_fault n w" and "i < n"
  shows "(case drop i (faults w) of [] \<Rightarrow> None | f # fs \<Rightarrow> f) = None"
proof (cases "i < length (faults w)")
  case True
  then have "faults w ! i \<in> set (take n (faults w))"
    using assms(2) by (auto simp: in_set_conv_nth intro!: exI [of _ i])
  then have "faults w ! i = None"
    using assms(1) by (simp add: no_fault_def list_all_iff)
  then show ?thesis
    using True by (simp add: Cons_nth_drop_Suc [symmetric])
next
  case False
  then show ?thesis by simp
qed

lemma next_fault_steps:
  assumes "no_fault n w"
  shows "0 < n \<Longrightarrow> next_fault w = (None, w\<lparr>faults := tl (faults w)\<rparr>)"
    and "1 < n \<Longrightarrow> next_fault (w\<lparr>faults := tl (faults w)\<rparr>)
                       = (None, w\<lparr>faults := tl (tl (faults w))\<rparr>)"
    and "2 < n \<Longrightarrow> next_fault (w\<lparr>faults := tl (tl (faults w))\<rparr>)
                       = (None, w\<lparr>faults := tl (tl (tl (faults w)))\<rparr>)"
    and "3 < n \<Longrightarrow> next_fault (w\<lparr>faults := tl (tl (tl (faults w)))\<rparr>)
                       = (None, w\<lparr>faults := tl (tl (tl (tl (faults w))))\<rparr>)"
    and "4 < n \<Longrightarrow> next_fault (w\<lparr>faults := tl (tl (tl (tl (faults w))))\<rparr>)
                       = (None, w\<lparr>faults := tl (tl (tl (tl (tl (faults w)))))\<rparr>)"
proof -
  have d: "drop 1 (faults w) = tl (faults w)" "drop 2 (faults w) = tl (tl (faults w))"
    "drop 3 (faults w) = tl (tl (tl (faults w)))"
    "drop 4 (faults w) = tl (tl (tl (tl (faults w))))"
    by (simp_all add: drop_Suc eval_nat_numeral)
  show "0 < n \<Longrightarrow> next_fault w = (None, w\<lparr>faults := tl (faults w)\<rparr>)"
    using no_fault_drop [OF assms, of 0] next_fault_update [where w = w and F = "faults w"] by simp
  show "1 < n \<Longrightarrow> next_fault (w\<lparr>faults := tl (faults w)\<rparr>)
                       = (None, w\<lparr>faults := tl (tl (faults w))\<rparr>)"
    using no_fault_drop [OF assms, of 1] by (simp add: next_fault_update d del: One_nat_def)
  show "2 < n \<Longrightarrow> next_fault (w\<lparr>faults := tl (tl (faults w))\<rparr>)
                       = (None, w\<lparr>faults := tl (tl (tl (faults w)))\<rparr>)"
    using no_fault_drop [OF assms, of 2] by (simp add: next_fault_update d del: One_nat_def)
  show "3 < n \<Longrightarrow> next_fault (w\<lparr>faults := tl (tl (tl (faults w)))\<rparr>)
                       = (None, w\<lparr>faults := tl (tl (tl (tl (faults w))))\<rparr>)"
    using no_fault_drop [OF assms, of 3] by (simp add: next_fault_update d del: One_nat_def)
  show "4 < n \<Longrightarrow> next_fault (w\<lparr>faults := tl (tl (tl (tl (faults w))))\<rparr>)
                       = (None, w\<lparr>faults := tl (tl (tl (tl (tl (faults w)))))\<rparr>)"
    using no_fault_drop [OF assms, of 4] by (simp add: next_fault_update d del: One_nat_def)
qed

lemma next_fault_frame:
  "kv (snd (next_fault w)) = kv w" "history (snd (next_fault w)) = history w"
  by (simp_all add: next_fault_def split: list.splits)

lemma directory_CreateOrOpen_frame:
  "kv (fst (directory_CreateOrOpen w p)) = kv w"
  "history (fst (directory_CreateOrOpen w p)) = history w"
  by (simp_all add: directory_CreateOrOpen_def next_fault_def split: list.splits option.splits)

lemma directory_CreateOrOpen_cases:
  obtains e w' where "directory_CreateOrOpen w path = (w', Inl e)"
  | w' where "directory_CreateOrOpen w path = (w', Inr (path, []))"
  by (cases "next_fault w"; cases "fst (next_fault w)")
     (auto simp: directory_CreateOrOpen_def)

lemma Transact_cases:
  assumes "Transact w f = (w', r)"
  obtains e where "r = Inl e" "w' = snd (next_fault w)"
  | e tr where "r = Inl e" "f \<lparr>env = snd (next_fault w), view = kv w, wlog = []\<rparr> = (tr, Inl e)"
      "w' = env tr"
  | x tr where "r = Inr x" "f \<lparr>env = snd (next_fault w), view = kv w, wlog = []\<rparr> = (tr, Inr x)"
      "w' = (env tr)\<lparr>kv := view tr, history := history (env tr) @ [wlog tr]\<rparr>"
proof (cases "next_fault w")
  case (Pair flt w1)
  show ?thesis
  proof (cases flt)
    case (Some e)
    with Pair assms that(1) show ?thesis by (auto simp: Transact_def)
  next
    case None
    have k: "kv w1 = kv w" using next_fault_frame(1) [of w] Pair by simp
    obtain tr y where f: "f \<lparr>env = w1, view = kv w, wlog = []\<rparr> = (tr, y)"
      by (cases "f \<lparr>env = w1, view = kv w, wlog = []\<rparr>")
    show ?thesis
    proof (cases y)
      case (Inl e)
      with Pair None f k assms that(2) [of e tr] show ?thesis by (auto simp: Transact_def)
    next
      case (Inr x)
      with Pair None f k assms that(3) [of x tr] show ?thesis by (auto simp: Transact_def)
    qed
  qed
qed

lemma Transact_preserves:
  assumes "P (kv w)"
    and "\<And>tr' x. f \<lparr>env = snd (next_fault w), view = kv w, wlog = []\<rparr> = (tr', x)
            \<Longrightarrow> kv (env tr') = kv w \<and> P (view tr')"
  shows "P (kv (fst (Transact w f)))"
proof -
  obtain w' r where t: "Transact w f = (w', r)" by (cases "Transact w f")
  from t have "P (kv w')"
  proof (cases rule: Transact_cases)
    case (1 e)
    with assms(1) show ?thesis by (simp add: next_fault_frame)
  next
    case (2 e tr)
    with assms show ?thesis by auto
  next
    case (3 x tr)
    with assms(2) [of tr "Inr x"] show ?thesis by simp
  qed
  with t show ?thesis by simp
qed

lemma ReadTransact_frame:
  assumes "\<And>tr tr' x. f tr = (tr', x) \<Longrightarrow> env tr' = env tr"
  shows "kv (fst (ReadTransact w f)) = kv w" "history (fst (ReadTransact w f)) = history w"
proof -
  obtain flt w1 where n: "next_fault w = (flt, w1)" by (cases "next_fault w")
  obtain tr y where f: "f \<lparr>env = w1, view = kv w1, wlog = []\<rparr> = (tr, y)"
    by (cases "f \<lparr>env = w1, view = kv w1, wlog = []\<rparr>")
  from assms [OF f] have e: "env tr = w1" by simp
  have k: "kv w1 = kv w" "history w1 = history w"
    using next_fault_frame [of w] n by simp_all
  show "kv (fst (ReadTransact w f)) = kv w"
    using n f e k by (cases flt; cases y) (simp_all add: ReadTransact_def)
  show "history (fst (ReadTransact w f)) = history w"
    using n f e k by (cases flt; cases y) (simp_all add: ReadTransact_def)
qed

section \<open>Reading a table definition\<close>

lemma getTableDefinition_frame:
  "kv (fst (getTableDefinition w name)) = kv w"
  "history (fst (getTableDefinition w name)) = history w"
proof -
  let ?f = "\<lambda>rtr. (rtr, getTableDefinition_loop (Sub ([''catalog''], []) ''table'')
                 (tr_GetRange rtr (subspace_range (Sub (Sub ([''catalog''], []) ''table'') name)))
                 \<lparr>Name = name, ColumnNames = [], ColumnTypes = []\<rparr>)"
  have "kv (fst (getTableDefinition w name)) = kv w
      \<and> history (fst (getTableDefinition w name)) = history w"
  proof (cases w "[''catalog'']" rule: directory_CreateOrOpen_cases)
    case (1 e w1)
    then show ?thesis
      using directory_CreateOrOpen_frame [of w "[''catalog'']"]
      by (simp add: getTableDefinition_def log_Fatal_def)
  next
    case (2 w1)
    have k: "kv w1 = kv w" "history w1 = history w"
      using directory_CreateOrOpen_frame [of w "[''catalog'']"] 2 by simp_all
    have r: "kv (fst (ReadTransact w1 ?f)) = kv w1" "history (fst (ReadTransact w1 ?f)) = history w1"
      by (rule ReadTransact_frame; simp)+
    obtain w2 y where t: "ReadTransact w1 ?f = (w2, y)"
      by (cases "ReadTransact w1 ?f")
    with r k have "kv w2 = kv w" "history w2 = history w" by simp_all
    with 2 t show ?thesis
      by (cases y) (simp_all add: getTableDefinition_def)
  qed
  then show "kv (fst (getTableDefinition w name)) = kv w"
    "history (fst (getTableDefinition w name)) = history w"
    by simp_all
qed

lemma getTableDefinition_loop_Name:
  "getTableDefinition_loop ss ri tbl = Inr tbl' \<Longrightarrow> Name tbl' = Name tbl"
  by (induction ss ri tbl rule: getTableDefinition_loop.induct)
     (auto simp: Let_def split: if_splits)

lemma getTableDefinition_Name:
  assumes "getTableDefinition w name = (w1, Inr tbl)"
  shows "Name tbl = name"
proof (cases w "[''catalog'']" rule: directory_CreateOrOpen_cases)
  case (1 e w')
  with assms show ?thesis by (simp add: getTableDefinition_def log_Fatal_def)
next
  case (2 w')
  with assms show ?thesis
    by (auto simp: getTableDefinition_def ReadTransact_def Let_def
        split: prod.splits option.splits sum.splits dest: getTableDefinition_loop_Name)
qed

lemma getTableDefinition_empty_scan:
  assumes "\<forall>e\<in>set (kv w). \<not> subspace_range (Sub (Sub ([''catalog''], []) ''table'') name) (fst e)"
    and "no_fault 2 w"
  shows "getTableDefinition w name =
           (w\<lparr>faults := tl (tl (faults w))\<rparr>, Inr \<lparr>Name = name, ColumnNames = [], ColumnTypes = []\<rparr>)"
proof -
  have f: "filter (\<lambda>e. subspace_range (Sub (Sub ([''catalog''], []) ''table'') name) (fst e)) (kv w) = []"
    using assms(1) by (simp add: filter_empty_conv)
  have n1: "next_fault w = (None, w\<lparr>faults := tl (faults w)\<rparr>)"
    using assms(2) by (simp add: next_fault_no_fault numeral_2_eq_2)
  have "no_fault 1 (w\<lparr>faults := tl (faults w)\<rparr>)"
    using assms(2) by (simp add: no_fault_tl numeral_2_eq_2)
  then have n2: "next_fault (w\<lparr>faults := tl (faults w)\<rparr>) = (None, w\<lparr>faults := tl (tl (faults w))\<rparr>)"
    using next_fault_no_fault [of 0 "w\<lparr>faults := tl (faults w)\<rparr>"] by simp
  show ?thesis
    by (simp add: getTableDefinition_def directory_CreateOrOpen_def n1 n2 ReadTransact_def
        tr_GetRange_def f)
qed

text \<open>
  Claim C1, as the code has it. \<^verbatim>\<open>getTableDefinition\<close> makes no check that the table exists
  (its comment says so: \<^verbatim>\<open>TODO: check if table exists, etc.\<close>). When the scan of
  \<^verbatim>\<open>catalog/table/<name>/...\<close> yields no entry and the store does not fail, it returns
  the definition with that name and no columns, and no error. A SELECT that names such a
  table and whose first target is the column reference \<open>f\<close> then fails with
  \<^verbatim>\<open>unknown field: f\<close>, the error of an unknown column.
\<close>

theorem getTableDefinition_no_columns:
  assumes "\<forall>e\<in>set (kv w). \<not> subspace_range (Sub (Sub ([''catalog''], []) ''table'') name) (fst e)"
    and "no_fault 2 w"
  shows "snd (getTableDefinition w name) = Inr \<lparr>Name = name, ColumnNames = [], ColumnTypes = []\<rparr>
       \<and> snd (executeSelect w (SelectStmt (RangeVar name # fc) (ColumnRef f # cs)))
           = Inl (Err (''unknown field: '' @ f))"
  using getTableDefinition_empty_scan [OF assms] by simp

theorem getTableDefinition_no_columns_witness:
  "snd (getTableDefinition w_customer ''nosuch'')
     = Inr \<lparr>Name = ''nosuch'', ColumnNames = [], ColumnTypes = []\<rparr>
   \<and> snd (executeSelect w_customer (SelectStmt [RangeVar ''nosuch''] [ColumnRef ''x'']))
     = Inl (Err ''unknown field: x'')"
  using getTableDefinition_no_columns [of w_customer "''nosuch''" "[]" "''x''" "[]"]
  by (simp add: w_customer_def subspace_range_def Sub_def no_fault_def)

text \<open>
  Claim C1 as stated fails: on an empty store \<^verbatim>\<open>getTableDefinition\<close> of the table
  \<^verbatim>\<open>nosuch\<close> returns a definition and no error, and \<^verbatim>\<open>select x from nosuch\<close> fails with the
  error of an unknown column.
\<close>

theorem getTableDefinition_TableUnknown_counterexample:
  "snd (getTableDefinition \<lparr>kv = [], history = [], faults = [], uuids = [], logs = []\<rparr> ''nosuch'')
     = Inr \<lparr>Name = ''nosuch'', ColumnNames = [], ColumnTypes = []\<rparr>
   \<and> snd (executeSelect \<lparr>kv = [], history = [], faults = [], uuids = [], logs = []\<rparr>
             (SelectStmt [RangeVar ''nosuch''] [ColumnRef ''x'']))
     = Inl (Err ''unknown field: x'')"
  by (simp add: getTableDefinition_def directory_CreateOrOpen_def next_fault_def ReadTransact_def
      tr_GetRange_def)

section \<open>CREATE TABLE writes the marker and the columns\<close>

text \<open>
  Once \<^verbatim>\<open>columnType\<close> is not empty, every further component is appended after a dot.
\<close>

lemma columnType_loop_nonempty:
  "columnType \<noteq> [] \<Longrightarrow>
     columnType_loop ns columnType = columnType @ concat (map (\<lambda>m. CHR ''.'' # m) ns)"
  by (induction ns arbitrary: columnType) simp_all

lemma columnType_loop_join:
  "[] \<notin> set ns \<Longrightarrow> columnType_loop ns [] = join_dot ns"
proof (cases ns)
  case Nil
  then show ?thesis by simp
next
  case (Cons n ms)
  assume "[] \<notin> set ns"
  with Cons have "n \<noteq> []" by auto
  with Cons show ?thesis by (simp add: columnType_loop_nonempty)
qed

lemma executeCreate_elts_effect:
  "executeCreate_elts ss name (map (\<lambda>(c, ns). ColumnDef c ns) cols) tr =
     (tr\<lparr>view := foldl apply_op (view tr)
                   (map (\<lambda>(c, ns). SetOp (Pack ss [name, c]) (columnType_loop ns [])) cols),
         wlog := wlog tr @ map (\<lambda>(c, ns). SetOp (Pack ss [name, c]) (columnType_loop ns [])) cols\<rparr>,
      Inr ())"
  by (induction cols arbitrary: tr) (auto simp: tr_Set_def)

text \<open>
  Claim C6. With a store that does not fail during the call, for a statement whose table
  elements are the column definitions \<open>cols\<close> (name and type-name components, no component
  empty, as the parser yields them; an element that is no column definition makes the code
  panic): when the existence marker is present,
  \<^verbatim>\<open>executeCreate\<close> logs \<^verbatim>\<open>Table <name> already exists\<close>, writes nothing and succeeds;
  otherwise it succeeds with one transaction that writes the marker with the empty value and
  then, in declaration order, one key \<^verbatim>\<open>(name, column)\<close> per column whose value is the
  components joined with dots.
\<close>

theorem executeCreate_writes:
  assumes "no_fault 2 w" and "\<forall>(c, ns)\<in>set cols. [] \<notin> set ns"
  shows "(map_of (kv w) ([''catalog''], [''table'', name]) \<noteq> None \<longrightarrow>
            executeCreate w (CreateStmt name (map (\<lambda>(c, ns). ColumnDef c ns) cols))
              = (w\<lparr>faults := tl (tl (faults w)),
                   history := history w @ [[]],
                   logs := logs w @ [Line (''Table '' @ name @ '' already exists'')]\<rparr>, Inr ()))
       \<and> (map_of (kv w) ([''catalog''], [''table'', name]) = None \<longrightarrow>
            executeCreate w (CreateStmt name (map (\<lambda>(c, ns). ColumnDef c ns) cols))
              = (w\<lparr>faults := tl (tl (faults w)),
                   kv := foldl apply_op (kv w)
                           (SetOp ([''catalog''], [''table'', name]) []
                            # map (\<lambda>(c, ns). SetOp ([''catalog''], [''table'', name, c]) (join_dot ns)) cols),
                   history := history w @
                           [SetOp ([''catalog''], [''table'', name]) []
                            # map (\<lambda>(c, ns). SetOp ([''catalog''], [''table'', name, c]) (join_dot ns)) cols]\<rparr>,
                 Inr ()))"
proof (intro conjI impI)
  assume "map_of (kv w) ([''catalog''], [''table'', name]) \<noteq> None"
  then obtain y where "map_of (kv w) ([''catalog''], [''table'', name]) = Some y"
    by blast
  then show "executeCreate w (CreateStmt name (map (\<lambda>(c, ns). ColumnDef c ns) cols))
              = (w\<lparr>faults := tl (tl (faults w)),
                   history := history w @ [[]],
                   logs := logs w @ [Line (''Table '' @ name @ '' already exists'')]\<rparr>, Inr ())"
    using next_fault_steps [OF assms(1)]
    by (simp add: directory_CreateOrOpen_def Transact_def executeCreate_txn_def
        tr_Get_def Pack_def Sub_def tr_log_def)
next
  assume a: "map_of (kv w) ([''catalog''], [''table'', name]) = None"
  have j: "map (\<lambda>(c, ns). SetOp ([''catalog''], [''table'', name, c]) (columnType_loop ns [])) cols
         = map (\<lambda>(c, ns). SetOp ([''catalog''], [''table'', name, c]) (join_dot ns)) cols"
    using assms(2) by (auto simp: columnType_loop_join)
  show "executeCreate w (CreateStmt name (map (\<lambda>(c, ns). ColumnDef c ns) cols))
              = (w\<lparr>faults := tl (tl (faults w)),
                   kv := foldl apply_op (kv w)
                           (SetOp ([''catalog''], [''table'', name]) []
                            # map (\<lambda>(c, ns). SetOp ([''catalog''], [''table'', name, c]) (join_dot ns)) cols),
                   history := history w @
                           [SetOp ([''catalog''], [''table'', name]) []
                            # map (\<lambda>(c, ns). SetOp ([''catalog''], [''table'', name, c]) (join_dot ns)) cols]\<rparr>,
                 Inr ())"
    using next_fault_steps [OF assms(1)] a
    by (simp add: directory_CreateOrOpen_def Transact_def executeCreate_txn_def
        tr_Get_def Pack_def Sub_def executeCreate_elts_effect tr_Set_def j)
qed

theorem executeCreate_writes_witness:
  "executeCreate w_empty
     (CreateStmt ''customer'' [ColumnDef ''age'' [''pg_catalog'', ''int4''], ColumnDef ''name'' [''text'']])
   = (w_empty\<lparr>kv := [(([''catalog''], [''table'', ''customer'']), []),
                      (([''catalog''], [''table'', ''customer'', ''age'']), ''pg_catalog.int4''),
                      (([''catalog''], [''table'', ''customer'', ''name'']), ''text'')],
               history := [[SetOp ([''catalog''], [''table'', ''customer'']) [],
                            SetOp ([''catalog''], [''table'', ''customer'', ''age'']) ''pg_catalog.int4'',
                            SetOp ([''catalog''], [''table'', ''customer'', ''name'']) ''text'']]\<rparr>, Inr ())
   \<and> executeCreate w_customer
     (CreateStmt ''customer'' [ColumnDef ''age'' [''pg_catalog'', ''int4''], ColumnDef ''name'' [''text'']])
   = (w_customer\<lparr>history := [[]], logs := [Line ''Table customer already exists'']\<rparr>, Inr ())"
proof -
  let ?cols = "[(''age'', [''pg_catalog'', ''int4'']), (''name'', [''text''])]"
  have c: "\<forall>(c, ns)\<in>set ?cols. [] \<notin> set ns" by simp
  have n0: "no_fault 2 w_empty" by (simp add: no_fault_def w_empty_def)
  have n1: "no_fault 2 w_customer" by (simp add: no_fault_def w_customer_def)
  show ?thesis
    using executeCreate_writes [OF n0 c, of "''customer''"]
      executeCreate_writes [OF n1 c, of "''customer''"]
    by (simp add: w_empty_def w_customer_def)
qed

lemma layouts_agree_data_eq:
  assumes "layouts_agree st"
    and "\<And>k. fst k = [''data''] \<Longrightarrow> map_of st' k = map_of st k"
  shows "layouts_agree st'"
  using assms by (simp add: layouts_agree_def row_layout_key_def column_layout_key_def)

lemma executeCreate_elts_frame:
  "executeCreate_elts ([''catalog''], [''table'']) name elts tr = (tr', r) \<Longrightarrow>
     env tr' = env tr \<and> (\<forall>k. fst k = [''data''] \<longrightarrow> map_of (view tr') k = map_of (view tr) k)"
  by (induction "([''catalog''], [''table''])::subspace" name elts tr rule: executeCreate_elts.induct)
     (auto simp: tr_Set_def Pack_def update_conv')

lemma executeCreate_layouts_agree:
  assumes "layouts_agree (kv w)"
  shows "layouts_agree (kv (fst (executeCreate w c)))"
proof -
  obtain name elts where c: "c = CreateStmt name elts" by (cases c)
  show ?thesis
  proof (cases w "[''catalog'']" rule: directory_CreateOrOpen_cases)
    case (1 e w1)
    with c assms directory_CreateOrOpen_frame [of w "[''catalog'']"] show ?thesis
      by (simp add: log_Fatal_def)
  next
    case (2 w1)
    have k: "kv w1 = kv w" using directory_CreateOrOpen_frame [of w "[''catalog'']"] 2 by simp
    let ?f = "executeCreate_txn ([''catalog''], [''table'']) name elts"
    have "layouts_agree (kv (fst (Transact w1 ?f)))"
    proof (rule Transact_preserves)
      show "layouts_agree (kv w1)" using assms k by simp
    next
      fix tr' x
      assume a: "?f \<lparr>env = snd (next_fault w1), view = kv w1, wlog = []\<rparr> = (tr', x)"
      let ?tr = "\<lparr>env = snd (next_fault w1), view = kv w1, wlog = []\<rparr>"
      show "kv (env tr') = kv w1 \<and> layouts_agree (view tr')"
      proof (cases "tr_Get ?tr (Pack ([''catalog''], [''table'']) [name])")
        case (Some y)
        with a assms k show ?thesis
          by (auto simp: executeCreate_txn_def tr_log_def next_fault_frame)
      next
        case None
        with a have "executeCreate_elts ([''catalog''], [''table'']) name elts
                       (tr_Set ?tr (Pack ([''catalog''], [''table'']) [name]) []) = (tr', x)"
          by (simp add: executeCreate_txn_def)
        from executeCreate_elts_frame [OF this]
        have "env tr' = snd (next_fault w1)"
          "\<And>k. fst k = [''data''] \<Longrightarrow> map_of (view tr') k = map_of (kv w1) k"
          by (auto simp: tr_Set_def Pack_def update_conv')
        with assms k show ?thesis
          by (auto simp: next_fault_frame intro: layouts_agree_data_eq)
      qed
    qed
    with 2 c show ?thesis
      by (cases "Transact w1 ?f") (auto simp: Sub_def split: sum.splits)
  qed
qed

section \<open>DELETE clears the data subspace\<close>

text \<open>
  The loop of \<^verbatim>\<open>executeDelete\<close> clears the scanned keys one after the other.
\<close>

lemma executeDelete_loop_effect:
  "executeDelete_loop ri tr =
     tr\<lparr>view := foldl (\<lambda>st e. AList.delete (fst e) st) (view tr) ri,
        wlog := wlog tr @ map (\<lambda>e. ClearOp (fst e)) ri\<rparr>"
  by (induction ri tr rule: executeDelete_loop.induct) (simp_all add: tr_Clear_def)

lemma map_of_foldl_delete:
  "map_of (foldl (\<lambda>st e. AList.delete (fst e) st) st ri) k =
     (if k \<in> fst ` set ri then None else map_of st k)"
  by (induction ri arbitrary: st) (auto simp: delete_conv')

lemma map_of_outside_range:
  assumes "r k"
  shows "(if k \<in> fst ` set (sort_key fst (filter (\<lambda>e. r (fst e)) st)) then None else map_of st k)
           = None"
proof (cases "k \<in> fst ` set st")
  case True
  with assms show ?thesis by (auto simp: image_iff)
next
  case False
  then show ?thesis by (simp add: map_of_eq_None_iff)
qed

text \<open>
  Claim C5. With a store that does not fail during the call: when the existence marker of the
  table is absent, \<^verbatim>\<open>executeDelete\<close> logs \<^verbatim>\<open>Table <name> does not exist\<close>, commits an empty
  transaction, changes no key and succeeds; otherwise it succeeds with one transaction whose
  writes are the clears of every key the scan of the \<^verbatim>\<open>data/table_data\<close> subspace returned, in
  scan order, after which no key of that subspace (of any table) is present and every other
  key is as before.
\<close>

theorem executeDelete_truncates:
  assumes "no_fault 3 w"
  shows "(map_of (kv w) ([''catalog''], [''table'', name]) = None \<longrightarrow>
            executeDelete w (DeleteStmt name)
              = (w\<lparr>faults := tl (tl (tl (faults w))),
                   history := history w @ [[]],
                   logs := logs w @ [Line (''Table '' @ name @ '' does not exist'')]\<rparr>, Inr ()))
       \<and> (map_of (kv w) ([''catalog''], [''table'', name]) \<noteq> None \<longrightarrow>
            (\<exists>w'. executeDelete w (DeleteStmt name) = (w', Inr ())
               \<and> history w' = history w @
                    [map (\<lambda>e. ClearOp (fst e))
                       (sort_key fst (filter (\<lambda>e. subspace_range ([''data''], [''table_data'']) (fst e)) (kv w)))]
               \<and> (\<forall>k. map_of (kv w') k =
                     (if subspace_range ([''data''], [''table_data'']) k then None else map_of (kv w) k))))"
proof (intro conjI impI)
  assume "map_of (kv w) ([''catalog''], [''table'', name]) = None"
  then show "executeDelete w (DeleteStmt name)
              = (w\<lparr>faults := tl (tl (tl (faults w))),
                   history := history w @ [[]],
                   logs := logs w @ [Line (''Table '' @ name @ '' does not exist'')]\<rparr>, Inr ())"
    using next_fault_steps [OF assms]
    by (simp add: directory_CreateOrOpen_def Transact_def executeDelete_txn_def
        tr_Get_def Pack_def Sub_def tr_log_def)
next
  assume m: "map_of (kv w) ([''catalog''], [''table'', name]) \<noteq> None"
  let ?ri = "sort_key fst (filter (\<lambda>e. subspace_range ([''data''], [''table_data'']) (fst e)) (kv w))"
  let ?w' = "w\<lparr>faults := tl (tl (tl (faults w))),
               kv := foldl (\<lambda>st e. AList.delete (fst e) st) (kv w) ?ri,
               history := history w @ [map (\<lambda>e. ClearOp (fst e)) ?ri]\<rparr>"
  from m obtain y where "map_of (kv w) ([''catalog''], [''table'', name]) = Some y"
    by blast
  then have "executeDelete w (DeleteStmt name) = (?w', Inr ())"
    using next_fault_steps [OF assms]
    by (simp add: directory_CreateOrOpen_def Transact_def executeDelete_txn_def
        tr_Get_def Pack_def Sub_def tr_GetRange_def executeDelete_loop_effect)
  moreover have "\<forall>k. map_of (kv ?w') k =
                     (if subspace_range ([''data''], [''table_data'']) k then None else map_of (kv w) k)"
  proof
    fix k
    show "map_of (kv ?w') k =
            (if subspace_range ([''data''], [''table_data'']) k then None else map_of (kv w) k)"
    proof (cases "subspace_range ([''data''], [''table_data'']) k")
      case True
      then show ?thesis
        using map_of_outside_range [of "subspace_range ([''data''], [''table_data''])" k "kv w"]
        by (simp add: map_of_foldl_delete)
    next
      case False
      then show ?thesis by (auto simp: map_of_foldl_delete)
    qed
  qed
  ultimately show "\<exists>w'. executeDelete w (DeleteStmt name) = (w', Inr ())
               \<and> history w' = history w @ [map (\<lambda>e. ClearOp (fst e)) ?ri]
               \<and> (\<forall>k. map_of (kv w') k =
                     (if subspace_range ([''data''], [''table_data'']) k then None else map_of (kv w) k))"
    by (intro exI [of _ ?w']) simp
qed

theorem executeDelete_truncates_witness:
  "(\<exists>w'. executeDelete w_customer_row (DeleteStmt ''customer'') = (w', Inr ())
        \<and> map_of (kv w') ([''data''], [''table_data'', ''customer'', ''r'', ''u1'', ''age'']) = None
        \<and> map_of (kv w') ([''catalog''], [''table'', ''customer'', ''age'']) = Some ''pg_catalog.int4'')
   \<and> executeDelete w_customer_row (DeleteStmt ''nosuch'')
       = (w_customer_row\<lparr>history := [[]], logs := [Line ''Table nosuch does not exist'']\<rparr>, Inr ())"
proof -
  have n: "no_fault 3 w_customer_row"
    by (simp add: no_fault_def w_customer_row_def)
  have p: "map_of (kv w_customer_row) ([''catalog''], [''table'', ''customer'']) \<noteq> None"
    by (simp add: w_customer_row_def)
  have a: "map_of (kv w_customer_row) ([''catalog''], [''table'', ''nosuch'']) = None"
    by (simp add: w_customer_row_def)
  from executeDelete_truncates [OF n, of "''customer''"] p obtain w' where
    w': "executeDelete w_customer_row (DeleteStmt ''customer'') = (w', Inr ())"
        "\<forall>k. map_of (kv w') k =
              (if subspace_range ([''data''], [''table_data'']) k then None else map_of (kv w_customer_row) k)"
    by blast
  from w'(2) have
    "map_of (kv w') ([''data''], [''table_data'', ''customer'', ''r'', ''u1'', ''age'']) = None"
    "map_of (kv w') ([''catalog''], [''table'', ''customer'', ''age'']) = Some ''pg_catalog.int4''"
    by (simp_all add: subspace_range_def w_customer_row_def)
  with w'(1) have "\<exists>w'. executeDelete w_customer_row (DeleteStmt ''customer'') = (w', Inr ())
        \<and> map_of (kv w') ([''data''], [''table_data'', ''customer'', ''r'', ''u1'', ''age'']) = None
        \<and> map_of (kv w') ([''catalog''], [''table'', ''customer'', ''age'']) = Some ''pg_catalog.int4''"
    by blast
  moreover from executeDelete_truncates [OF n, of "''nosuch''"] a
  have "executeDelete w_customer_row (DeleteStmt ''nosuch'')
       = (w_customer_row\<lparr>history := [[]], logs := [Line ''Table nosuch does not exist'']\<rparr>, Inr ())"
    by (simp add: w_customer_row_def)
  ultimately show ?thesis by blast
qed

lemma executeDelete_layouts_agree:
  assumes "layouts_agree (kv w)"
  shows "layouts_agree (kv (fst (executeDelete w c)))"
proof -
  obtain name where c: "c = DeleteStmt name" by (cases c)
  show ?thesis
  proof (cases w "[''catalog'']" rule: directory_CreateOrOpen_cases)
    case (1 e w1)
    with c assms directory_CreateOrOpen_frame [of w "[''catalog'']"] show ?thesis
      by (simp add: log_Fatal_def)
  next
    case o1: (2 w1)
    have k1: "kv w1 = kv w" using directory_CreateOrOpen_frame [of w "[''catalog'']"] o1 by simp
    show ?thesis
    proof (cases w1 "[''data'']" rule: directory_CreateOrOpen_cases)
      case (1 e w2)
      with c o1 k1 assms directory_CreateOrOpen_frame [of w1 "[''data'']"] show ?thesis
        by (simp add: log_Fatal_def)
    next
      case o2: (2 w2)
      have k2: "kv w2 = kv w" using directory_CreateOrOpen_frame [of w1 "[''data'']"] o2 k1 by simp
      let ?f = "executeDelete_txn ([''catalog''], [''table'', name]) ([''data''], [''table_data'']) name"
      have "layouts_agree (kv (fst (Transact w2 ?f)))"
      proof (rule Transact_preserves)
        show "layouts_agree (kv w2)" using assms k2 by simp
      next
        fix tr' x
        assume a: "?f \<lparr>env = snd (next_fault w2), view = kv w2, wlog = []\<rparr> = (tr', x)"
        let ?tr = "\<lparr>env = snd (next_fault w2), view = kv w2, wlog = []\<rparr>"
        show "kv (env tr') = kv w2 \<and> layouts_agree (view tr')"
        proof (cases "tr_Get ?tr ([''catalog''], [''table'', name])")
          case None
          with a assms k2 show ?thesis
            by (auto simp: executeDelete_txn_def tr_log_def next_fault_frame)
        next
          case (Some y)
          have "\<And>t rid col. subspace_range ([''data''], [''table_data'']) (row_layout_key t rid col)"
            "\<And>t rid col. subspace_range ([''data''], [''table_data'']) (column_layout_key t col rid)"
            by (simp_all add: subspace_range_def row_layout_key_def column_layout_key_def)
          then have "layouts_agree (foldl (\<lambda>st e. AList.delete (fst e) st) (kv w2)
                       (sort_key fst (filter (\<lambda>e. subspace_range ([''data''], [''table_data'']) (fst e)) (kv w2))))"
            using map_of_outside_range [of "subspace_range ([''data''], [''table_data''])" _ "kv w2"]
            by (simp add: layouts_agree_def map_of_foldl_delete)
          with Some a show ?thesis
            by (auto simp: executeDelete_txn_def executeDelete_loop_effect tr_GetRange_def
                next_fault_frame)
        qed
      qed
      with o1 o2 c show ?thesis
        by (cases "Transact w2 ?f") (auto simp: Sub_def Pack_def split: sum.splits)
    qed
  qed
qed

section \<open>SELECT: the rows of the row layout\<close>

text \<open>
  \<open>group_rows n xs\<close> cuts \<open>xs\<close> into consecutive groups of \<open>n\<close> elements, the last one
  possibly shorter.
\<close>

lemma group_rows_Nil [simp]: "group_rows n [] = []"
  by (simp add: group_rows.simps)

lemma group_rows_short:
  "0 < n \<Longrightarrow> xs \<noteq> [] \<Longrightarrow> length xs \<le> n \<Longrightarrow> group_rows n xs = [xs]"
  by (simp add: group_rows.simps [of n xs])

lemma group_rows_full:
  assumes "0 < n" and "length xs = n"
  shows "group_rows n (xs @ ys) = xs # group_rows n ys"
proof -
  from assms have "xs @ ys \<noteq> []" by auto
  with assms have "group_rows n (xs @ ys) = take n (xs @ ys) # group_rows n (drop n (xs @ ys))"
    by (subst group_rows.simps) simp
  with assms show ?thesis by simp
qed

lemma group_rows_nonempty: "[] \<notin> set (group_rows n xs)"
proof (induction n xs rule: group_rows.induct)
  case (1 n xs)
  then show ?case by (auto simp: group_rows.simps [of n xs])
qed

lemma executeSelect_loop_rows:
  assumes "0 < length (fieldNames results)"
    and "length cur \<le> length (fieldNames results)"
    and "\<forall>e\<in>set ri. 4 \<le> length (Unpack ss (fst e))"
  shows "\<exists>tr' co. executeSelect_loop ss results ri (rows0 @ [cur]) (length rows0) columnOrder tr
           = (tr', Inr (rows0 @ (if cur @ map snd ri = [] then [[]]
                                 else group_rows (length (fieldNames results)) (cur @ map snd ri)), co))"
  using assms
proof (induction ri arbitrary: rows0 cur columnOrder tr)
  case Nil
  then show ?case by (simp add: group_rows_short)
next
  case (Cons e ri)
  obtain k v where e: "e = (k, v)" by (cases e)
  let ?n = "length (fieldNames results)"
  let ?t = "Unpack ss k"
  let ?co = "if length columnOrder < ?n then columnOrder @ [?t ! 3] else columnOrder"
  let ?tr = "tr_log tr (fetching_line (?t ! 0) (?t ! 1) (?t ! 3) (?t ! 2))"
  from Cons.prems e have t: "\<not> length ?t < 4" by simp
  from Cons.prems have ri: "\<forall>e\<in>set ri. 4 \<le> length (Unpack ss (fst e))" by simp
  show ?case
  proof (cases "length cur = ?n")
    case True
    have u: "((rows0 @ [cur]) @ [[]])[length rows0 + 1 := ((rows0 @ [cur]) @ [[]]) ! (length rows0 + 1) @ [v]]
               = (rows0 @ [cur]) @ [[v]]"
      by (simp add: list_update_append nth_append)
    have step: "executeSelect_loop ss results (e # ri) (rows0 @ [cur]) (length rows0) columnOrder tr
                  = executeSelect_loop ss results ri ((rows0 @ [cur]) @ [[v]]) (length (rows0 @ [cur])) ?co ?tr"
      using e t True u by (simp add: Let_def)
    from Cons.IH [of "[v]" "rows0 @ [cur]" ?co ?tr] Cons.prems(1) ri
    obtain tr' co where
      "executeSelect_loop ss results ri ((rows0 @ [cur]) @ [[v]]) (length (rows0 @ [cur])) ?co ?tr
         = (tr', Inr ((rows0 @ [cur]) @ group_rows ?n ([v] @ map snd ri), co))"
      by auto
    with step True Cons.prems(1) e show ?thesis
      by (auto simp: group_rows_full)
  next
    case False
    with Cons.prems(2) have l: "length (cur @ [v]) \<le> ?n" by simp
    have u: "(rows0 @ [cur])[length rows0 := (rows0 @ [cur]) ! length rows0 @ [v]] = rows0 @ [cur @ [v]]"
      by simp
    have step: "executeSelect_loop ss results (e # ri) (rows0 @ [cur]) (length rows0) columnOrder tr
                  = executeSelect_loop ss results ri (rows0 @ [cur @ [v]]) (length rows0) ?co ?tr"
      using e t False u by (simp add: Let_def)
    from Cons.IH [of "cur @ [v]" rows0 ?co ?tr] Cons.prems(1) l ri
    obtain tr' co where
      "executeSelect_loop ss results ri (rows0 @ [cur @ [v]]) (length rows0) ?co ?tr
         = (tr', Inr (rows0 @ group_rows ?n ((cur @ [v]) @ map snd ri), co))"
      by auto
    with step e show ?thesis by auto
  qed
qed

lemma executeSelect_txn_rows:
  assumes "0 < length (fieldNames results)"
    and "\<forall>e\<in>set (view tr). fst (fst e) = [''data''] \<longrightarrow> 5 \<le> length (snd (fst e))"
  shows "\<exists>tr' res. executeSelect_txn ([''data''], [''table_data'']) tbl results tr = (tr', Inr res)
           \<and> rows res = group_rows (length (fieldNames results))
                           (map snd (scan_row_layout (view tr) (Name tbl)))"
proof -
  let ?ri = "tr_GetRange tr (PrefixRange (Pack ([''data''], [''table_data'']) [Name tbl, ''r'']))"
  let ?n = "length (fieldNames results)"
  have ri: "?ri = scan_row_layout (view tr) (Name tbl)"
    by (simp add: tr_GetRange_def scan_row_layout_def Pack_def)
  have "\<forall>e\<in>set ?ri. 4 \<le> length (Unpack ([''data''], [''table_data'']) (fst e))"
  proof
    fix e
    assume "e \<in> set ?ri"
    then have e: "e \<in> set (view tr)" "PrefixRange ([''data''], [''table_data'', Name tbl, ''r'']) (fst e)"
      by (simp_all add: tr_GetRange_def Pack_def)
    from e(2) have d: "fst (fst e) = [''data'']"
      "take (Suc (Suc (Suc 0))) (snd (fst e)) = [''table_data'', Name tbl, ''r'']"
      by (simp_all add: PrefixRange_def)
    from d(2) have "take (Suc 0) (take (Suc (Suc (Suc 0))) (snd (fst e))) = [''table_data'']"
      by (simp only: take_Suc_Cons take_0)
    then have "take (Suc 0) (snd (fst e)) = [''table_data'']" by (simp add: min_def)
    moreover from assms(2) e(1) d(1) have "5 \<le> length (snd (fst e))" by blast
    ultimately show "4 \<le> length (Unpack ([''data''], [''table_data'']) (fst e))"
      using d(1) by (simp add: Unpack_def)
  qed
  from executeSelect_loop_rows [OF assms(1) _ this, of "[]" "[]" "[]" tr]
  obtain tr' co where
    l: "executeSelect_loop ([''data''], [''table_data'']) results ?ri [[]] 0 [] tr
          = (tr', Inr (if map snd ?ri = [] then [[]] else group_rows ?n (map snd ?ri), co))"
    by auto
  have "filter (\<lambda>row. 0 < length row)
          ((if map snd ?ri = [] then [[]] else group_rows ?n (map snd ?ri)) @ [[]])
        = group_rows ?n (map snd ?ri)"
    using group_rows_nonempty [of ?n "map snd ?ri"] by (auto simp: filter_id_conv)
  with l ri show ?thesis
    by (simp add: executeSelect_txn_def)
qed

lemma select_targets_length:
  "select_targets tbl ts results = Inr results' \<Longrightarrow>
     length (fieldNames results') = length (fieldNames results) + length ts"
  by (induction tbl ts results rule: select_targets.induct)
     (auto split: sum.splits if_splits)

text \<open>
  Claim C2, as the code has it. The scan loop of \<^verbatim>\<open>executeSelect\<close> starts a new result row
  exactly when the row under construction holds \<^verbatim>\<open>len(results.fieldNames)\<close> values, and
  \<^verbatim>\<open>results.fieldNames\<close> holds the targets of the SELECT at that point, not the columns of
  the table. So for a SELECT with at least one target whose table and targets resolve, on a
  store that does not fail and whose data keys have their four elements, the result rows are
  the values of the row-layout scan, in scan order, cut into consecutive groups of as many
  values as the SELECT has targets (the last group possibly shorter).
\<close>

theorem executeSelect_groups_by_targets:
  assumes "getTableDefinition w tblName = (w1, Inr tbl)"
    and "select_targets tbl TargetList \<lparr>fieldNames = [], fieldTypes = [], rows = []\<rparr> = Inr results"
    and "TargetList \<noteq> []"
    and "no_fault 2 w1"
    and "\<forall>e\<in>set (kv w). fst (fst e) = [''data''] \<longrightarrow> 5 \<le> length (snd (fst e))"
  shows "\<exists>w' res. executeSelect w (SelectStmt (RangeVar tblName # fc) TargetList) = (w', Inr res)
           \<and> rows res = group_rows (length TargetList) (map snd (scan_row_layout (kv w) tblName))"
proof -
  have k: "kv w1 = kv w" using getTableDefinition_frame(1) [of w tblName] assms(1) by simp
  have n: "length (fieldNames results) = length TargetList"
    using select_targets_length [OF assms(2)] by simp
  with assms(3) have pos: "0 < length (fieldNames results)" by simp
  let ?tr = "\<lparr>env = w1\<lparr>faults := tl (tl (faults w1))\<rparr>, view = kv w1, wlog = []\<rparr>"
  from executeSelect_txn_rows [OF pos, of ?tr tbl] assms(5) k
  obtain tr' res where
    t: "executeSelect_txn ([''data''], [''table_data'']) tbl results ?tr = (tr', Inr res)"
       "rows res = group_rows (length (fieldNames results)) (map snd (scan_row_layout (kv w) (Name tbl)))"
    by auto
  have "executeSelect w (SelectStmt (RangeVar tblName # fc) TargetList)
          = ((env tr')\<lparr>kv := view tr', history := history (env tr') @ [wlog tr']\<rparr>, Inr res)"
    using assms(1,2) next_fault_steps [OF assms(4)] t(1)
    by (simp add: directory_CreateOrOpen_def Transact_def Sub_def select_result_def)
  with t(2) n getTableDefinition_Name [OF assms(1)] show ?thesis by simp
qed

theorem executeSelect_groups_by_targets_witness:
  "\<exists>w' res. executeSelect w_customer_row (SelectStmt [RangeVar ''customer''] [ColumnRef ''name'']) = (w', Inr res)
           \<and> rows res = [[''14''], [''garry'']]"
proof -
  let ?tbl = "\<lparr>Name = ''customer'', ColumnNames = [''age'', ''name''],
               ColumnTypes = [''pg_catalog.int4'', ''text'']\<rparr>"
  have g: "getTableDefinition w_customer_row ''customer'' = (w_customer_row, Inr ?tbl)"
    by code_simp
  have t: "select_targets ?tbl [ColumnRef ''name''] \<lparr>fieldNames = [], fieldTypes = [], rows = []\<rparr>
             = Inr \<lparr>fieldNames = [''name''], fieldTypes = [''text''], rows = []\<rparr>"
    by simp
  have n: "no_fault 2 w_customer_row" by (simp add: no_fault_def w_customer_row_def)
  have wf: "\<forall>e\<in>set (kv w_customer_row). fst (fst e) = [''data''] \<longrightarrow> 5 \<le> length (snd (fst e))"
    by (simp add: w_customer_row_def)
  have s: "group_rows (length [ColumnRef ''name'']) (map snd (scan_row_layout (kv w_customer_row) ''customer''))
             = [[''14''], [''garry'']]"
    by code_simp
  from executeSelect_groups_by_targets [OF g t _ n wf, of "[]"] s show ?thesis
    by simp
qed

text \<open>
  Claim C2 as stated fails: the table \<^verbatim>\<open>customer\<close> has the two columns \<^verbatim>\<open>age\<close> and
  \<^verbatim>\<open>name\<close> and one row; \<^verbatim>\<open>select name from customer\<close> starts a new row after one value and
  returns two rows of one value each.
\<close>

theorem executeSelect_column_count_counterexample:
  "snd (executeSelect w_customer_row (SelectStmt [RangeVar ''customer''] [ColumnRef ''name'']))
     = Inr \<lparr>fieldNames = [''age''], fieldTypes = [''text''], rows = [[''14''], [''garry'']]\<rparr>
   \<and> snd (getTableDefinition w_customer_row ''customer'')
     = Inr \<lparr>Name = ''customer'', ColumnNames = [''age'', ''name''],
            ColumnTypes = [''pg_catalog.int4'', ''text'']\<rparr>"
  by code_simp

lemma executeSelect_loop_frame:
  "executeSelect_loop ss results ri targetRows rowIndex columnOrder tr = (tr', r) \<Longrightarrow>
     view tr' = view tr \<and> kv (env tr') = kv (env tr)"
  by (induction ss results ri targetRows rowIndex columnOrder tr rule: executeSelect_loop.induct)
     (auto simp: Let_def tr_log_def split: if_splits)

lemma executeSelect_kv:
  "kv (fst (executeSelect w c)) = kv w"
proof -
  obtain fc tl where c: "c = SelectStmt fc tl" by (cases c)
  show ?thesis
  proof (cases fc)
    case Nil
    with c show ?thesis by simp
  next
    case (Cons f fc')
    show ?thesis
    proof (cases f)
      case OtherFrom
      with c Cons show ?thesis by simp
    next
      case (RangeVar tblName)
      obtain w1 g where g: "getTableDefinition w tblName = (w1, g)"
        by (cases "getTableDefinition w tblName")
      have k1: "kv w1 = kv w" using getTableDefinition_frame [of w tblName] g by simp
      show ?thesis
      proof (cases g)
        case (Inl e)
        with c Cons RangeVar g k1 show ?thesis by simp
      next
        case (Inr tbl)
        show ?thesis
        proof (cases "select_targets tbl tl \<lparr>fieldNames = [], fieldTypes = [], rows = []\<rparr>")
          case e: (Inl e)
          with c Cons RangeVar g Inr k1 show ?thesis by simp
        next
          case r: (Inr results)
          show ?thesis
          proof (cases w1 "[''data'']" rule: directory_CreateOrOpen_cases)
            case (1 e w2)
            with c Cons RangeVar g Inr r k1 directory_CreateOrOpen_frame [of w1 "[''data'']"]
            show ?thesis by (simp add: log_Fatal_def)
          next
            case (2 w2)
            have k2: "kv w2 = kv w" using directory_CreateOrOpen_frame [of w1 "[''data'']"] 2 k1 by simp
            let ?f = "executeSelect_txn ([''data''], [''table_data'']) tbl results"
            have "kv (fst (Transact w2 ?f)) = kv w2"
            proof (rule Transact_preserves [where P = "\<lambda>st. st = kv w2"])
              fix tr' x
              assume "?f \<lparr>env = snd (next_fault w2), view = kv w2, wlog = []\<rparr> = (tr', x)"
              then show "kv (env tr') = kv w2 \<and> view tr' = kv w2"
                by (auto simp: executeSelect_txn_def next_fault_frame split: prod.splits sum.splits
                    dest: executeSelect_loop_frame)
            qed simp
            with c Cons RangeVar g Inr r 2 k2 show ?thesis
              by (cases "Transact w2 ?f")
                 (auto simp: Sub_def select_result_def split: sum.splits error.splits)
          qed
        qed
      qed
    qed
  qed
qed

section \<open>SELECT and the error of its transaction\<close>

lemma executeSelect_loop_no_Err:
  "executeSelect_loop ss results ri targetRows rowIndex columnOrder tr = (tr', Inl e) \<Longrightarrow> \<exists>p. e = Panic p"
  by (induction ss results ri targetRows rowIndex columnOrder tr rule: executeSelect_loop.induct)
     (auto simp: Let_def split: if_splits)

lemma columnar_targets_no_Err:
  "columnar_targets ts c v rowIndex targetRows = Inl e \<Longrightarrow> \<exists>p. e = Panic p"
  by (induction ts c v rowIndex targetRows rule: columnar_targets.induct)
     (auto split: if_splits)

lemma executeSelectColumnar_loop_no_Err:
  "executeSelectColumnar_loop ss results ri columnOrder targetRows rowIndex lastColumn tr = (tr', Inl e)
     \<Longrightarrow> \<exists>p. e = Panic p"
  by (induction ss results ri columnOrder targetRows rowIndex lastColumn tr
        rule: executeSelectColumnar_loop.induct)
     (auto simp: Let_def split: if_splits sum.splits dest: columnar_targets_no_Err)

lemma Transact_select_no_Err:
  assumes "\<And>tr tr' e. f tr = (tr', Inl e) \<Longrightarrow> \<exists>p. e = Panic p"
  shows "snd (select_result results (Transact w f)) \<noteq> Inl (Err m)"
proof (cases "next_fault w")
  case (Pair flt w1)
  show ?thesis
  proof (cases flt)
    case (Some e)
    with Pair show ?thesis by (simp add: Transact_def select_result_def)
  next
    case None
    obtain tr' r where f: "f \<lparr>env = w1, view = kv w1, wlog = []\<rparr> = (tr', r)"
      by (cases "f \<lparr>env = w1, view = kv w1, wlog = []\<rparr>")
    show ?thesis
    proof (cases r)
      case (Inl e)
      with f assms obtain p where "e = Panic p" by blast
      with Pair None f Inl show ?thesis by (simp add: Transact_def select_result_def)
    next
      case (Inr x)
      with Pair None f show ?thesis by (simp add: Transact_def select_result_def)
    qed
  qed
qed

lemma executeSelect_txn_no_Err:
  "executeSelect_txn ss tbl results tr = (tr', Inl e) \<Longrightarrow> \<exists>p. e = Panic p"
  by (auto simp: executeSelect_txn_def split: prod.splits sum.splits dest: executeSelect_loop_no_Err)

lemma executeSelectColumnar_txn_no_Err:
  "executeSelectColumnar_txn ss tbl results tr = (tr', Inl e) \<Longrightarrow> \<exists>p. e = Panic p"
  by (auto simp: executeSelectColumnar_txn_def split: prod.splits sum.splits
      dest: executeSelectColumnar_loop_no_Err)

text \<open>
  Claim C9. Once the table and the targets of a SELECT have resolved, neither SELECT path
  returns an error: when the scan transaction fails with a store error (after the \<^verbatim>\<open>data\<close>
  directory has opened), both paths return the result as it stood before the transaction,
  with no error; and whatever the store does, the outcome is never a returned error.
\<close>

theorem select_drops_transaction_error:
  assumes "getTableDefinition w tblName = (w1, Inr tbl)"
    and "select_targets tbl TargetList \<lparr>fieldNames = [], fieldTypes = [], rows = []\<rparr> = Inr results"
  shows "(faults w1 = None # Some e # fs \<longrightarrow>
            executeSelect w (SelectStmt (RangeVar tblName # fc) TargetList)
              = (w1\<lparr>faults := fs\<rparr>, Inr results)
          \<and> executeSelectColumnar w (SelectStmt (RangeVar tblName # fc) TargetList)
              = (w1\<lparr>faults := fs\<rparr>, Inr results))
       \<and> snd (executeSelect w (SelectStmt (RangeVar tblName # fc) TargetList)) \<noteq> Inl (Err m)
       \<and> snd (executeSelectColumnar w (SelectStmt (RangeVar tblName # fc) TargetList)) \<noteq> Inl (Err m)"
proof (intro conjI impI)
  assume "faults w1 = None # Some e # fs"
  then show "executeSelect w (SelectStmt (RangeVar tblName # fc) TargetList) = (w1\<lparr>faults := fs\<rparr>, Inr results)"
    using assms
    by (simp add: directory_CreateOrOpen_def next_fault_def Transact_def select_result_def)
next
  assume "faults w1 = None # Some e # fs"
  then show "executeSelectColumnar w (SelectStmt (RangeVar tblName # fc) TargetList) = (w1\<lparr>faults := fs\<rparr>, Inr results)"
    using assms
    by (simp add: directory_CreateOrOpen_def next_fault_def Transact_def select_result_def)
next
  show "snd (executeSelect w (SelectStmt (RangeVar tblName # fc) TargetList)) \<noteq> Inl (Err m)"
  proof (cases w1 "[''data'']" rule: directory_CreateOrOpen_cases)
    case (1 e' w')
    with assms show ?thesis by (simp add: log_Fatal_def)
  next
    case (2 w')
    with assms show ?thesis
      using Transact_select_no_Err [of "executeSelect_txn (Sub ([''data''], []) ''table_data'') tbl results" results w' m]
      by (simp add: executeSelect_txn_no_Err)
  qed
next
  show "snd (executeSelectColumnar w (SelectStmt (RangeVar tblName # fc) TargetList)) \<noteq> Inl (Err m)"
  proof (cases w1 "[''data'']" rule: directory_CreateOrOpen_cases)
    case (1 e' w')
    with assms show ?thesis by (simp add: log_Fatal_def)
  next
    case (2 w')
    with assms show ?thesis
      using Transact_select_no_Err [of "executeSelectColumnar_txn (Sub ([''data''], []) ''table_data'') tbl results" results w' m]
      by (simp add: executeSelectColumnar_txn_no_Err)
  qed
qed

theorem select_drops_transaction_error_witness:
  "executeSelect (w_customer\<lparr>faults := [None, None, None, Some ''store unavailable'']\<rparr>)
     (SelectStmt [RangeVar ''customer''] [ColumnRef ''name''])
   = (w_customer, Inr \<lparr>fieldNames = [''name''], fieldTypes = [''text''], rows = []\<rparr>)
   \<and> executeSelectColumnar (w_customer\<lparr>faults := [None, None, None, Some ''store unavailable'']\<rparr>)
     (SelectStmt [RangeVar ''customer''] [ColumnRef ''name''])
   = (w_customer, Inr \<lparr>fieldNames = [''name''], fieldTypes = [''text''], rows = []\<rparr>)"
proof -
  let ?w = "w_customer\<lparr>faults := [None, None, None, Some ''store unavailable'']\<rparr>"
  let ?tbl = "\<lparr>Name = ''customer'', ColumnNames = [''age'', ''name''],
               ColumnTypes = [''pg_catalog.int4'', ''text'']\<rparr>"
  have g: "getTableDefinition ?w ''customer''
             = (w_customer\<lparr>faults := [None, Some ''store unavailable'']\<rparr>, Inr ?tbl)"
    by (simp add: w_customer_def getTableDefinition_def directory_CreateOrOpen_def next_fault_def
        ReadTransact_def tr_GetRange_def subspace_range_def Sub_def Unpack_def)
  have t: "select_targets ?tbl [ColumnRef ''name''] \<lparr>fieldNames = [], fieldTypes = [], rows = []\<rparr>
             = Inr \<lparr>fieldNames = [''name''], fieldTypes = [''text''], rows = []\<rparr>"
    by simp
  show ?thesis
    using select_drops_transaction_error [OF g t, of "''store unavailable''" "[]" "[]" "''m''"]
    by (simp add: w_customer_def)
qed

section \<open>INSERT writes both layouts\<close>

text \<open>
  One value of a tuple: the column-layout key and the row-layout key, with the same bytes.
\<close>

lemma executeInsert_cell_effect:
  "executeInsert_cell ([''data''], [''table_data'']) t tbl rid ci bs tr =
     tr\<lparr>env := (env tr)\<lparr>logs := logs (env tr) @
              [KeyLine ''Inserted key c: '' (column_layout_key t (ColumnNames tbl ! ci) rid),
               KeyLine ''Inserted key r: '' (row_layout_key t rid (ColumnNames tbl ! ci))]\<rparr>,
        view := foldl apply_op (view tr) (cell_pair t rid (ColumnNames tbl ! ci) bs),
        wlog := wlog tr @ cell_pair t rid (ColumnNames tbl ! ci) bs\<rparr>"
  by (simp add: executeInsert_cell_def Let_def tr_Set_def tr_log_def Pack_def cell_pair_def
      row_layout_key_def column_layout_key_def)

text \<open>Whatever a tuple does, its writes are cell pairs.\<close>

lemma executeInsert_items_paired:
  "executeInsert_items ([''data''], [''table_data'']) t tbl rid mx items ci tr = (tr', r) \<Longrightarrow>
     \<exists>cells. wlog tr' = wlog tr @ concat (map (\<lambda>(col, v). cell_pair t rid col v) cells)
           \<and> view tr' = foldl apply_op (view tr) (concat (map (\<lambda>(col, v). cell_pair t rid col v) cells))"
proof (induction "([''data''], [''table_data''])::subspace" t tbl rid mx items ci tr
       rule: executeInsert_items.induct)
  case (1 tblName tbl rid maxColumnIndex columnIndex tr)
  then show ?case by (auto intro: exI [of _ "[]"])
next
  case (2 tblName tbl rid maxColumnIndex s items columnIndex tr)
  show ?case
  proof (cases "length (ColumnNames tbl) \<le> columnIndex")
    case True
    with 2 show ?thesis by (auto intro: exI [of _ "[]"])
  next
    case False
    with 2 obtain cells where
      c: "wlog tr' = wlog (executeInsert_cell ([''data''], [''table_data'']) tblName tbl rid columnIndex s tr)
                       @ concat (map (\<lambda>(col, v). cell_pair tblName rid col v) cells)"
         "view tr' = foldl apply_op (view (executeInsert_cell ([''data''], [''table_data'']) tblName tbl rid columnIndex s tr))
                       (concat (map (\<lambda>(col, v). cell_pair tblName rid col v) cells))"
      by (auto split: if_splits)
    show ?thesis
      using c
      by (intro exI [of _ "(ColumnNames tbl ! columnIndex, s) # cells"])
         (simp add: executeInsert_cell_effect)
  qed
next
  case (3 tblName tbl rid maxColumnIndex i items columnIndex tr)
  show ?case
  proof (cases "length (ColumnNames tbl) \<le> columnIndex")
    case True
    with 3 show ?thesis by (auto intro: exI [of _ "[]"])
  next
    case False
    with 3 obtain cells where
      c: "wlog tr' = wlog (executeInsert_cell ([''data''], [''table_data'']) tblName tbl rid columnIndex (json_Marshal i) tr)
                       @ concat (map (\<lambda>(col, v). cell_pair tblName rid col v) cells)"
         "view tr' = foldl apply_op (view (executeInsert_cell ([''data''], [''table_data'']) tblName tbl rid columnIndex (json_Marshal i) tr))
                       (concat (map (\<lambda>(col, v). cell_pair tblName rid col v) cells))"
      by (auto split: if_splits)
    show ?thesis
      using c
      by (intro exI [of _ "(ColumnNames tbl ! columnIndex, json_Marshal i) # cells"])
         (simp add: executeInsert_cell_effect)
  qed
qed (auto intro: exI [of _ "[]"])

lemma executeInsert_items_env:
  "executeInsert_items ([''data''], [''table_data'']) t tbl rid mx items ci tr = (tr', r) \<Longrightarrow>
     kv (env tr') = kv (env tr) \<and> history (env tr') = history (env tr)"
  by (induction "([''data''], [''table_data''])::subspace" t tbl rid mx items ci tr
       rule: executeInsert_items.induct)
     (auto simp: executeInsert_cell_effect split: if_splits)

lemma executeInsert_lists_paired:
  "executeInsert_lists ([''data''], [''table_data'']) t tbl vls tr = (tr', r) \<Longrightarrow>
     \<exists>cells. wlog tr' = wlog tr @ concat (map (\<lambda>(rid, col, v). cell_pair t rid col v) cells)
           \<and> view tr' = foldl apply_op (view tr) (concat (map (\<lambda>(rid, col, v). cell_pair t rid col v) cells))
           \<and> kv (env tr') = kv (env tr) \<and> history (env tr') = history (env tr)"
proof (induction vls arbitrary: tr)
  case Nil
  then show ?case by (auto intro: exI [of _ "[]"])
next
  case (Cons vl rest)
  show ?case
  proof (cases "uuids (env tr)")
    case Nil
    with Cons.prems show ?thesis by (auto intro: exI [of _ "[]"])
  next
    case (Cons rid ids)
    let ?tr0 = "tr\<lparr>env := (env tr)\<lparr>uuids := ids\<rparr>\<rparr>"
    show ?thesis
    proof (cases vl)
      case NotList
      with Cons Cons.prems show ?thesis by (auto intro: exI [of _ "[]"])
    next
      case (ListNode Items)
      obtain tr1 r1 where i: "executeInsert_items ([''data''], [''table_data'']) t tbl rid
                                (int (length (ColumnNames tbl)) - 1) Items 0 ?tr0 = (tr1, r1)"
        by (cases "executeInsert_items ([''data''], [''table_data'']) t tbl rid
                                (int (length (ColumnNames tbl)) - 1) Items 0 ?tr0")
      from executeInsert_items_paired [OF i] obtain cells1 where
        c1: "wlog tr1 = wlog tr @ concat (map (\<lambda>(col, v). cell_pair t rid col v) cells1)"
            "view tr1 = foldl apply_op (view tr) (concat (map (\<lambda>(col, v). cell_pair t rid col v) cells1))"
        by auto
      from executeInsert_items_env [OF i] have e1: "kv (env tr1) = kv (env tr)" "history (env tr1) = history (env tr)"
        by simp_all
      have m: "concat (map (\<lambda>(col, v). cell_pair t rid col v) cells1)
             = concat (map (\<lambda>(rid, col, v). cell_pair t rid col v) (map (\<lambda>(col, v). (rid, col, v)) cells1))"
        by (induction cells1) auto
      show ?thesis
      proof (cases r1)
        case (Inl e)
        with \<open>uuids (env tr) = rid # ids\<close> ListNode i Cons.prems have "tr' = tr1"
          by (simp add: Let_def)
        with c1 e1 m show ?thesis
          by (intro exI [of _ "map (\<lambda>(col, v). (rid, col, v)) cells1"]) simp
      next
        case (Inr u)
        with \<open>uuids (env tr) = rid # ids\<close> ListNode i Cons.prems
        have "executeInsert_lists ([''data''], [''table_data'']) t tbl rest tr1 = (tr', r)"
          by (simp add: Let_def)
        from Cons.IH [OF this] obtain cells2 where
          c2: "wlog tr' = wlog tr1 @ concat (map (\<lambda>(rid, col, v). cell_pair t rid col v) cells2)"
              "view tr' = foldl apply_op (view tr1) (concat (map (\<lambda>(rid, col, v). cell_pair t rid col v) cells2))"
              "kv (env tr') = kv (env tr1)" "history (env tr') = history (env tr1)"
          by auto
        show ?thesis
          using c1 c2 e1 m
          by (intro exI [of _ "map (\<lambda>(col, v). (rid, col, v)) cells1 @ cells2"]) simp
      qed
    qed
  qed
qed

lemma layouts_agree_pair:
  "layouts_agree st \<Longrightarrow> layouts_agree (foldl apply_op st (cell_pair t rid col v))"
  by (auto simp: layouts_agree_def cell_pair_def update_conv' row_layout_key_def
      column_layout_key_def)

lemma layouts_agree_pairs:
  "layouts_agree st \<Longrightarrow>
     layouts_agree (foldl apply_op st (concat (map (\<lambda>(rid, col, v). cell_pair t rid col v) cells)))"
proof (induction cells arbitrary: st)
  case Nil
  then show ?case by simp
next
  case (Cons c cells)
  obtain rid col v where c: "c = (rid, col, v)" by (cases c)
  from Cons.prems have "layouts_agree (foldl apply_op st (cell_pair t rid col v))"
    by (rule layouts_agree_pair)
  from Cons.IH [OF this] c show ?case by simp
qed

lemma executeInsert_txn_paired:
  assumes "executeInsert_txn tableKey ([''data''], [''table_data'']) t tbl slct tr = (tr', r)"
  shows "\<exists>cells. wlog tr' = wlog tr @ concat (map (\<lambda>(rid, col, v). cell_pair t rid col v) cells)
           \<and> view tr' = foldl apply_op (view tr) (concat (map (\<lambda>(rid, col, v). cell_pair t rid col v) cells))
           \<and> kv (env tr') = kv (env tr) \<and> history (env tr') = history (env tr)"
proof (cases "tr_Get tr tableKey")
  case None
  with assms show ?thesis
    by (auto simp: executeInsert_txn_def tr_log_def intro!: exI [of _ "[]"])
next
  case False: (Some y)
  show ?thesis
  proof (cases slct)
    case None
    with False assms show ?thesis
      by (auto simp: executeInsert_txn_def intro!: exI [of _ "[]"])
  next
    case (Some ValuesLists)
    with False assms have "executeInsert_lists ([''data''], [''table_data'']) t tbl ValuesLists tr = (tr', r)"
      by (simp add: executeInsert_txn_def)
    then show ?thesis by (rule executeInsert_lists_paired)
  qed
qed

lemma executeInsert_outcome:
  assumes "executeInsert w (InsertStmt t slct) = (w', r)"
  shows "(kv w' = kv w \<and> history w' = history w \<and> r \<noteq> Inr ())
       \<or> (r = Inr () \<and>
            (\<exists>cells. history w' = history w @ [concat (map (\<lambda>(rid, col, v). cell_pair t rid col v) cells)]
                  \<and> kv w' = foldl apply_op (kv w) (concat (map (\<lambda>(rid, col, v). cell_pair t rid col v) cells))))"
proof -
  obtain w1 g where g: "getTableDefinition w t = (w1, g)" by (cases "getTableDefinition w t")
  have k1: "kv w1 = kv w" "history w1 = history w"
    using getTableDefinition_frame [of w t] g by simp_all
  show ?thesis
  proof (cases g)
    case (Inl e)
    with g k1 assms show ?thesis by auto
  next
    case (Inr tbl)
    show ?thesis
    proof (cases w1 "[''catalog'']" rule: directory_CreateOrOpen_cases)
      case (1 e w2)
      with g Inr k1 assms directory_CreateOrOpen_frame [of w1 "[''catalog'']"] show ?thesis
        by (auto simp: log_Fatal_def)
    next
      case c: (2 w2)
      have k2: "kv w2 = kv w" "history w2 = history w"
        using directory_CreateOrOpen_frame [of w1 "[''catalog'']"] c k1 by simp_all
      show ?thesis
      proof (cases w2 "[''data'']" rule: directory_CreateOrOpen_cases)
        case (1 e w3)
        with g Inr c k2 assms directory_CreateOrOpen_frame [of w2 "[''data'']"] show ?thesis
          by (auto simp: log_Fatal_def)
      next
        case d: (2 w3)
        have k3: "kv w3 = kv w" "history w3 = history w"
          using directory_CreateOrOpen_frame [of w2 "[''data'']"] d k2 by simp_all
        let ?f = "executeInsert_txn ([''catalog''], [''table'', t]) ([''data''], [''table_data'']) t tbl slct"
        obtain w4 y where tx: "Transact w3 ?f = (w4, y)" by (cases "Transact w3 ?f")
        have res: "(w', r) = (case y of Inl e \<Rightarrow> (w4, Inl (Errorf ''could not insert into the table table: '' e))
                                 | Inr u \<Rightarrow> (w4, Inr ()))"
          using assms g Inr c d tx by (simp add: Sub_def Pack_def split: sum.splits)
        from tx show ?thesis
        proof (cases rule: Transact_cases)
          case (1 e)
          with res k3 show ?thesis by (auto simp: next_fault_frame)
        next
          case (2 e tr)
          from executeInsert_txn_paired [OF 2(2)] have "kv (env tr) = kv w" "history (env tr) = history w"
            using k3 by (auto simp: next_fault_frame)
          with 2 res show ?thesis by auto
        next
          case (3 x tr)
          from executeInsert_txn_paired [OF 3(2)] obtain cells where
            "wlog tr = concat (map (\<lambda>(rid, col, v). cell_pair t rid col v) cells)"
            "view tr = foldl apply_op (kv w) (concat (map (\<lambda>(rid, col, v). cell_pair t rid col v) cells))"
            "history (env tr) = history w"
            using k3 by (auto simp: next_fault_frame)
          with 3 res show ?thesis by auto
        qed
      qed
    qed
  qed
qed

lemma executeInsert_layouts_agree:
  assumes "layouts_agree (kv w)"
  shows "layouts_agree (kv (fst (executeInsert w c)))"
proof -
  obtain t slct where c: "c = InsertStmt t slct" by (cases c)
  obtain w' r where e: "executeInsert w (InsertStmt t slct) = (w', r)"
    by (cases "executeInsert w (InsertStmt t slct)")
  from executeInsert_outcome [OF e] assms have "layouts_agree (kv w')"
    by (auto simp: layouts_agree_pairs)
  with c e show ?thesis by simp
qed

lemma execute_layouts_agree:
  "layouts_agree (kv w) \<Longrightarrow> layouts_agree (kv (fst (execute w stmts)))"
proof (induction w stmts rule: execute.induct)
  case (5 w c stmts)
  then show ?case
    using executeSelect_kv [of w c]
    by (cases "executeSelect w c") (auto split: sum.splits)
qed (simp_all add: executeInsert_layouts_agree executeCreate_layouts_agree executeDelete_layouts_agree)

text \<open>
  Claim C3. A successful \<^verbatim>\<open>executeInsert\<close> commits exactly one transaction, and its writes are
  a sequence of cell pairs: for each cell the column-layout key \<^verbatim>\<open>(table, "c", column, row_id)\<close>
  and the row-layout key \<^verbatim>\<open>(table, "r", row_id, column)\<close> with the same bytes; the store
  after the call is the store before with these writes applied. Hence the agreement of the
  two layouts (a row-layout cell is present exactly when the matching column-layout cell is,
  with the same bytes) is kept by every statement the engine executes, whatever its outcome.
\<close>

theorem insert_writes_both_layouts:
  "(executeInsert w (InsertStmt t slct) = (w', Inr ()) \<longrightarrow>
      (\<exists>cells. history w' = history w @ [concat (map (\<lambda>(rid, col, v). cell_pair t rid col v) cells)]
            \<and> kv w' = foldl apply_op (kv w) (concat (map (\<lambda>(rid, col, v). cell_pair t rid col v) cells))))
   \<and> (layouts_agree (kv w) \<longrightarrow> layouts_agree (kv (fst (execute w stmts))))"
  using executeInsert_outcome [of w t slct w' "Inr ()"] execute_layouts_agree [of w stmts]
  by auto

theorem insert_writes_both_layouts_witness:
  "layouts_agree (kv (fst (execute w_customer [Insert insert_two])))
   \<and> (\<exists>cells. history (fst (executeInsert w_customer insert_two))
                = history w_customer @ [concat (map (\<lambda>(rid, col, v). cell_pair ''customer'' rid col v) cells)])"
proof -
  have a: "layouts_agree (kv w_customer)"
    by (simp add: layouts_agree_def w_customer_def row_layout_key_def column_layout_key_def)
  have b: "snd (executeInsert w_customer insert_two) = Inr ()"
    by code_simp
  show ?thesis
    using insert_writes_both_layouts [of w_customer "''customer''"
        "Some [ListNode [AConst (Ival 14), AConst (Str ''garry'')],
               ListNode [AConst (Ival 20), AConst (Str ''ted'')]]"
        "fst (executeInsert w_customer insert_two)" "[Insert insert_two]"] a b
    by (auto simp: insert_two_def prod_eq_iff)
qed

section \<open>INSERT with more or fewer values than columns\<close>

text \<open>The writes of one tuple whose values are all string or integer constants.\<close>

lemma executeInsert_items_writes:
  assumes "\<forall>v\<in>set items. encoded v \<noteq> None"
    and "0 < length (ColumnNames tbl)"
    and "ci = min s (length (ColumnNames tbl) - 1)"
  shows "\<exists>tr'. executeInsert_items ([''data''], [''table_data'']) t tbl rid
                 (int (length (ColumnNames tbl)) - 1) items ci tr = (tr', Inr ())
          \<and> wlog tr' = wlog tr @
               concat (map (\<lambda>(j, v). cell_pair t rid (ColumnNames tbl ! min j (length (ColumnNames tbl) - 1))
                                       (the (encoded v)))
                           (zip [s..<s + length items] items))"
  using assms
proof (induction items arbitrary: ci s tr)
  case Nil
  then show ?case by simp
next
  case (Cons v items)
  let ?n = "length (ColumnNames tbl)"
  let ?ci' = "if int ci < int ?n - 1 then ci + 1 else ci"
  from Cons.prems obtain bs where bs: "encoded v = Some bs" by auto
  have ci: "ci < ?n" using Cons.prems(2,3) by arith
  have ci': "?ci' = min (Suc s) (?n - 1)" using Cons.prems(2,3) by (auto simp: min_def)
  have col: "ColumnNames tbl ! min s (?n - 1) = ColumnNames tbl ! ci" using Cons.prems by simp
  let ?tr1 = "executeInsert_cell ([''data''], [''table_data'']) t tbl rid ci bs tr"
  from Cons.IH [of ?ci' "Suc s" ?tr1] Cons.prems ci'
  obtain tr' where
    r: "executeInsert_items ([''data''], [''table_data'']) t tbl rid (int ?n - 1) items ?ci' ?tr1 = (tr', Inr ())"
       "wlog tr' = wlog ?tr1 @
               concat (map (\<lambda>(j, v). cell_pair t rid (ColumnNames tbl ! min j (?n - 1)) (the (encoded v)))
                           (zip [Suc s..<Suc s + length items] items))"
    by auto
  have step: "executeInsert_items ([''data''], [''table_data'']) t tbl rid (int ?n - 1) (v # items) ci tr
                = executeInsert_items ([''data''], [''table_data'']) t tbl rid (int ?n - 1) items ?ci' ?tr1"
    using bs ci by (cases v rule: encoded.cases) auto
  have z: "zip [s..<Suc (s + length items)] (v # items) = (s, v) # zip [Suc s..<Suc (s + length items)] items"
    by (simp add: upt_conv_Cons del: upt_Suc)
  show ?case
    using r step bs col
    by (intro exI [of _ tr']) (simp add: z executeInsert_cell_effect del: upt_Suc)
qed

text \<open>
  The store a tuple leaves is the store before it with the tuple's writes applied.
\<close>

lemma executeInsert_items_view:
  assumes "executeInsert_items ([''data''], [''table_data'']) t tbl rid mx items ci tr = (tr', r)"
  shows "view tr' = foldl apply_op (view tr) (drop (length (wlog tr)) (wlog tr'))"
  using executeInsert_items_paired [OF assms] by auto


lemma zip_columns:
  assumes "length items \<le> length cols"
  shows "map (\<lambda>(j, v). F (cols ! min j (length cols - 1)) v) (zip [0..<length items] items)
           = map (\<lambda>(c, v). F c v) (zip cols items)"
proof (rule nth_equalityI)
  show "length (map (\<lambda>(j, v). F (cols ! min j (length cols - 1)) v) (zip [0..<length items] items))
          = length (map (\<lambda>(c, v). F c v) (zip cols items))"
    using assms by simp
next
  fix i
  assume "i < length (map (\<lambda>(j, v). F (cols ! min j (length cols - 1)) v) (zip [0..<length items] items))"
  then have i: "i < length items" by simp
  with assms have "min i (length cols - 1) = i" by simp
  with i assms show "map (\<lambda>(j, v). F (cols ! min j (length cols - 1)) v) (zip [0..<length items] items) ! i
                       = map (\<lambda>(c, v). F c v) (zip cols items) ! i"
    by simp
qed

lemma foldl_pairs_other:
  assumes "col \<notin> fst ` set zs"
  shows "map_of (foldl apply_op st (concat (map (\<lambda>(c, v). cell_pair t rid c (g v)) zs)))
              (row_layout_key t rid col) = map_of st (row_layout_key t rid col)
       \<and> map_of (foldl apply_op st (concat (map (\<lambda>(c, v). cell_pair t rid c (g v)) zs)))
              (column_layout_key t col rid) = map_of st (column_layout_key t col rid)"
  using assms
proof (induction zs arbitrary: st)
  case Nil
  then show ?case by simp
next
  case (Cons z zs)
  obtain c v where z: "z = (c, v)" by (cases z)
  with Cons.prems have "c \<noteq> col" "col \<notin> fst ` set zs" by auto
  with Cons.IH [of "foldl apply_op st (cell_pair t rid c (g v))"] z show ?case
    by (simp add: cell_pair_def update_conv' row_layout_key_def column_layout_key_def)
qed

text \<open>
  The column a position is clamped to: the column at that position when there is one, the
  last column otherwise.
\<close>

lemma nth_min_last:
  assumes "0 < length cols"
  shows "cols ! min j (length cols - 1) = (if j < length cols then cols ! j else last cols)"
proof (cases "j < length cols")
  case True
  then have "min j (length cols - 1) = j" by simp
  with True show ?thesis by simp
next
  case False
  then have "min j (length cols - 1) = length cols - 1" by simp
  moreover from assms have "cols \<noteq> []" by auto
  ultimately show ?thesis using False by (simp add: last_conv_nth)
qed

lemma tuple_writes_min:
  assumes "0 < length cols"
  shows "concat (map (\<lambda>(j, v). cell_pair t rid (cols ! min j (length cols - 1)) (the (encoded v)))
                     (zip [0..<length items] items))
           = tuple_writes t cols rid items"
  unfolding tuple_writes_def by (simp only: nth_min_last [OF assms])

lemma executeInsert_items_uuids:
  "executeInsert_items ([''data''], [''table_data'']) t tbl rid mx items ci tr = (tr', r) \<Longrightarrow>
     uuids (env tr') = uuids (env tr)"
  by (induction "([''data''], [''table_data''])::subspace" t tbl rid mx items ci tr
       rule: executeInsert_items.induct)
     (auto simp: executeInsert_cell_effect split: if_splits)

text \<open>
  The loop over the tuples of an INSERT whose values are all string or integer constants: one
  row id per tuple, in the order the identifier source returns them, and for each tuple its
  writes.
\<close>

lemma executeInsert_lists_writes:
  assumes "0 < length (ColumnNames tbl)"
    and "\<forall>its\<in>set tuples. \<forall>v\<in>set its. encoded v \<noteq> None"
    and "length tuples \<le> length (uuids (env tr))"
  shows "\<exists>tr'. executeInsert_lists ([''data''], [''table_data'']) t tbl (map ListNode tuples) tr
                 = (tr', Inr ())
          \<and> wlog tr' = wlog tr @
               concat (map (\<lambda>(rid, its). tuple_writes t (ColumnNames tbl) rid its)
                           (zip (uuids (env tr)) tuples))
          \<and> view tr' = foldl apply_op (view tr)
               (concat (map (\<lambda>(rid, its). tuple_writes t (ColumnNames tbl) rid its)
                           (zip (uuids (env tr)) tuples)))
          \<and> kv (env tr') = kv (env tr) \<and> history (env tr') = history (env tr)"
  using assms(2,3)
proof (induction tuples arbitrary: tr)
  case Nil
  then show ?case by simp
next
  case (Cons items tuples)
  from Cons.prems(2) obtain rid ids where u: "uuids (env tr) = rid # ids"
    by (cases "uuids (env tr)") auto
  let ?tr0 = "tr\<lparr>env := (env tr)\<lparr>uuids := ids\<rparr>\<rparr>"
  from Cons.prems(1) have sup: "\<forall>v\<in>set items. encoded v \<noteq> None" by simp
  have m0: "0 = min 0 (length (ColumnNames tbl) - 1)" by simp
  from executeInsert_items_writes [OF sup assms(1) m0, of t rid ?tr0]
  obtain tr1 where
    i: "executeInsert_items ([''data''], [''table_data'']) t tbl rid
          (int (length (ColumnNames tbl)) - 1) items 0 ?tr0 = (tr1, Inr ())"
       "wlog tr1 = wlog ?tr0 @
               concat (map (\<lambda>(j, v). cell_pair t rid (ColumnNames tbl ! min j (length (ColumnNames tbl) - 1))
                                       (the (encoded v)))
                           (zip [0..<0 + length items] items))"
    by blast
  from i(2) have w1: "wlog tr1 = wlog tr @ tuple_writes t (ColumnNames tbl) rid items"
    using tuple_writes_min [OF assms(1), of t rid items] by simp
  have v1: "view tr1 = foldl apply_op (view tr) (tuple_writes t (ColumnNames tbl) rid items)"
    using executeInsert_items_view [OF i(1)] w1 by simp
  have e1: "kv (env tr1) = kv (env tr)" "history (env tr1) = history (env tr)"
    using executeInsert_items_env [OF i(1)] by simp_all
  have u1: "uuids (env tr1) = ids"
    using executeInsert_items_uuids [OF i(1)] by simp
  from Cons.prems u u1 have p: "\<forall>its\<in>set tuples. \<forall>v\<in>set its. encoded v \<noteq> None"
    "length tuples \<le> length (uuids (env tr1))"
    by simp_all
  from Cons.IH [OF p] u1 obtain tr' where
    r: "executeInsert_lists ([''data''], [''table_data'']) t tbl (map ListNode tuples) tr1 = (tr', Inr ())"
       "wlog tr' = wlog tr1 @
               concat (map (\<lambda>(rid, its). tuple_writes t (ColumnNames tbl) rid its) (zip ids tuples))"
       "view tr' = foldl apply_op (view tr1)
               (concat (map (\<lambda>(rid, its). tuple_writes t (ColumnNames tbl) rid its) (zip ids tuples)))"
       "kv (env tr') = kv (env tr1)" "history (env tr') = history (env tr1)"
    by auto
  have step: "executeInsert_lists ([''data''], [''table_data'']) t tbl (map ListNode (items # tuples)) tr
                = executeInsert_lists ([''data''], [''table_data'']) t tbl (map ListNode tuples) tr1"
    using u i(1) by (simp add: Let_def)
  show ?case
    using step r w1 v1 e1 u
    by (intro exI [of _ tr']) simp
qed

lemma getTableDefinition_uuids:
  "uuids (fst (getTableDefinition w name)) = uuids w"
proof -
  let ?f = "\<lambda>rtr. (rtr, getTableDefinition_loop (Sub ([''catalog''], []) ''table'')
                 (tr_GetRange rtr (subspace_range (Sub (Sub ([''catalog''], []) ''table'') name)))
                 \<lparr>Name = name, ColumnNames = [], ColumnTypes = []\<rparr>)"
  have n: "uuids (snd (next_fault w')) = uuids w'" for w'
    by (simp add: next_fault_def split: list.splits)
  have d: "uuids (fst (directory_CreateOrOpen w [''catalog''])) = uuids w"
    by (simp add: directory_CreateOrOpen_def next_fault_def split: list.splits option.splits)
  show ?thesis
  proof (cases w "[''catalog'']" rule: directory_CreateOrOpen_cases)
    case (1 e w1)
    with d show ?thesis by (simp add: getTableDefinition_def log_Fatal_def)
  next
    case (2 w1)
    with d have u1: "uuids w1 = uuids w" by simp
    have "uuids (fst (ReadTransact w1 ?f)) = uuids w1"
      using n [of w1]
      by (cases "next_fault w1") (auto simp: ReadTransact_def split: option.splits sum.splits)
    with 2 u1 show ?thesis
      by (cases "ReadTransact w1 ?f") (auto simp: getTableDefinition_def split: sum.splits)
  qed
qed

text \<open>
  \<^verbatim>\<open>executeInsert\<close> on an existing table with at least one column, with a store that does not
  fail: it succeeds with one transaction whose writes are those of its tuples, in order.
\<close>

lemma executeInsert_all_tuples:
  assumes "getTableDefinition w t = (w1, Inr tbl)"
    and "no_fault 3 w1"
    and "map_of (kv w) ([''catalog''], [''table'', t]) \<noteq> None"
    and "0 < length (ColumnNames tbl)"
    and "\<forall>its\<in>set tuples. \<forall>v\<in>set its. encoded v \<noteq> None"
    and "length tuples \<le> length (uuids w)"
  shows "\<exists>w'. executeInsert w (InsertStmt t (Some (map ListNode tuples))) = (w', Inr ())
          \<and> history w' = history w @
               [concat (map (\<lambda>(rid, its). tuple_writes t (ColumnNames tbl) rid its)
                            (zip (uuids w) tuples))]
          \<and> kv w' = foldl apply_op (kv w)
               (concat (map (\<lambda>(rid, its). tuple_writes t (ColumnNames tbl) rid its)
                            (zip (uuids w) tuples)))"
proof -
  have k: "kv w1 = kv w" "history w1 = history w"
    using getTableDefinition_frame [of w t] assms(1) by simp_all
  have u: "uuids w1 = uuids w"
    using getTableDefinition_uuids [of w t] assms(1) by simp
  let ?tr = "\<lparr>env = w1\<lparr>faults := tl (tl (tl (faults w1)))\<rparr>, view = kv w1, wlog = []\<rparr>"
  from assms(3) k obtain y where m: "map_of (kv w1) ([''catalog''], [''table'', t]) = Some y"
    by auto
  from executeInsert_lists_writes [OF assms(4,5), of ?tr t] assms(6) u k
  obtain tr' where
    r: "executeInsert_lists ([''data''], [''table_data'']) t tbl (map ListNode tuples) ?tr = (tr', Inr ())"
       "wlog tr' = concat (map (\<lambda>(rid, its). tuple_writes t (ColumnNames tbl) rid its)
                               (zip (uuids w) tuples))"
       "view tr' = foldl apply_op (kv w)
                     (concat (map (\<lambda>(rid, its). tuple_writes t (ColumnNames tbl) rid its)
                                  (zip (uuids w) tuples)))"
       "kv (env tr') = kv w" "history (env tr') = history w"
    by auto
  have "executeInsert w (InsertStmt t (Some (map ListNode tuples)))
          = ((env tr')\<lparr>kv := view tr', history := history (env tr') @ [wlog tr']\<rparr>, Inr ())"
    using assms(1) next_fault_steps [OF assms(2)] m r(1)
    by (simp add: directory_CreateOrOpen_def Transact_def Sub_def Pack_def executeInsert_txn_def
        tr_Get_def)
  with r show ?thesis by simp
qed

lemma pairs_other_rid:
  assumes "rid' \<noteq> rid"
  shows "map_of (foldl apply_op st (concat (map (\<lambda>(j, v). cell_pair t rid' (f j) (g v)) zs)))
              (row_layout_key t rid col) = map_of st (row_layout_key t rid col)
       \<and> map_of (foldl apply_op st (concat (map (\<lambda>(j, v). cell_pair t rid' (f j) (g v)) zs)))
              (column_layout_key t col rid) = map_of st (column_layout_key t col rid)"
proof (induction zs arbitrary: st)
  case Nil
  then show ?case by simp
next
  case (Cons z zs)
  obtain j v where z: "z = (j, v)" by (cases z)
  from Cons.IH [of "foldl apply_op st (cell_pair t rid' (f j) (g v))"] z assms show ?case
    by (simp add: cell_pair_def update_conv' row_layout_key_def column_layout_key_def)
qed

lemma tuple_writes_other_rid:
  assumes "rid' \<noteq> rid"
  shows "map_of (foldl apply_op st (tuple_writes t cols rid' items)) (row_layout_key t rid col)
           = map_of st (row_layout_key t rid col)
       \<and> map_of (foldl apply_op st (tuple_writes t cols rid' items)) (column_layout_key t col rid)
           = map_of st (column_layout_key t col rid)"
  unfolding tuple_writes_def
  using pairs_other_rid [OF assms, of st t "\<lambda>j. if j < length cols then cols ! j else last cols"
      "\<lambda>v. the (encoded v)" "zip [0..<length items] items" col]
  by simp

lemma tuples_other_rid:
  assumes "rid \<notin> fst ` set zs"
  shows "map_of (foldl apply_op st (concat (map (\<lambda>(r, its). tuple_writes t cols r its) zs)))
              (row_layout_key t rid col) = map_of st (row_layout_key t rid col)
       \<and> map_of (foldl apply_op st (concat (map (\<lambda>(r, its). tuple_writes t cols r its) zs)))
              (column_layout_key t col rid) = map_of st (column_layout_key t col rid)"
  using assms
proof (induction zs arbitrary: st)
  case Nil
  then show ?case by simp
next
  case (Cons z zs)
  obtain r its where z: "z = (r, its)" by (cases z)
  with Cons.prems have "r \<noteq> rid" "rid \<notin> fst ` set zs" by auto
  with Cons.IH [of "foldl apply_op st (tuple_writes t cols r its)"]
    tuple_writes_other_rid [of r rid st t cols its col] z
  show ?case by simp
qed


lemma tuple_writes_short:
  assumes "length items < length cols"
  shows "tuple_writes t cols rid items
           = concat (map (\<lambda>(col, v). cell_pair t rid col (the (encoded v))) (zip cols items))"
proof -
  from assms have n: "0 < length cols" by (cases cols) auto
  have "map (\<lambda>(j, v). cell_pair t rid (cols ! min j (length cols - 1)) (the (encoded v)))
            (zip [0..<length items] items)
          = map (\<lambda>(col, v). cell_pair t rid col (the (encoded v))) (zip cols items)"
    using zip_columns [of items cols "\<lambda>c v. cell_pair t rid c (the (encoded v))"] assms by simp
  with tuple_writes_min [OF n, of t rid items] show ?thesis by simp
qed

lemma tuple_writes_rest:
  assumes "length items < length cols" and "distinct cols"
    and "col \<in> set (drop (length items) cols)"
  shows "map_of (foldl apply_op st (tuple_writes t cols rid items)) (row_layout_key t rid col)
           = map_of st (row_layout_key t rid col)
       \<and> map_of (foldl apply_op st (tuple_writes t cols rid items)) (column_layout_key t col rid)
           = map_of st (column_layout_key t col rid)"
proof -
  have "set (take (length items) cols) \<inter> set (drop (length items) cols) = {}"
    using assms(2) by (metis append_take_drop_id distinct_append)
  with assms(3) have "col \<notin> set (take (length items) cols)" by auto
  moreover have "zip cols items = zip (take (length items) cols) items"
    using take_zip [of "length items" cols items] by simp
  then have "fst ` set (zip cols items) \<subseteq> set (take (length items) cols)"
    by (metis image_subsetI prod.collapse set_zip_leftD)
  ultimately have "col \<notin> fst ` set (zip cols items)" by auto
  from foldl_pairs_other [OF this, of st t rid "\<lambda>v. the (encoded v)"]
    tuple_writes_short [OF assms(1), of t rid]
  show ?thesis by simp
qed

lemma zip_rids:
  assumes "length rids_pre = length pre"
  shows "zip (rids_pre @ rid # rids_post) (pre @ items # post)
           = zip rids_pre pre @ (rid, items) # zip rids_post post"
  using assms by simp


text \<open>
  Claim C10, as the code has it. Take an INSERT into an existing table whose tuples hold
  string and integer constants only, with a store that does not fail and the column list
  that \<^verbatim>\<open>getTableDefinition\<close> returns (names distinct), and let \<open>items\<close> be any of its tuples,
  \<open>rid\<close> its row id, given to no other tuple of the statement. If \<open>items\<close> has fewer values
  than the table has columns, \<^verbatim>\<open>executeInsert\<close> succeeds; the writes of the tuple in the one
  transaction are the cell pairs of the first \<open>length items\<close> columns, in order, with the
  values in order; and the cells of the remaining columns of that row, in both layouts, are
  after the INSERT as they were before it (absent, for a fresh row id).
\<close>

theorem insert_missing_values:
  assumes "getTableDefinition w t = (w1, Inr tbl)"
    and "no_fault 3 w1"
    and "map_of (kv w) ([''catalog''], [''table'', t]) \<noteq> None"
    and "\<forall>its\<in>set (pre @ items # post). \<forall>v\<in>set its. encoded v \<noteq> None"
    and "uuids w = rids_pre @ rid # rids_post"
    and "length rids_pre = length pre"
    and "length post \<le> length rids_post"
    and "rid \<notin> set rids_pre" and "rid \<notin> set rids_post"
    and "length items < length (ColumnNames tbl)"
    and "distinct (ColumnNames tbl)"
  shows "\<exists>w'. executeInsert w (InsertStmt t (Some (map ListNode (pre @ items # post)))) = (w', Inr ())
          \<and> history w' = history w @
               [concat (map (\<lambda>(r, its). tuple_writes t (ColumnNames tbl) r its) (zip rids_pre pre))
                @ concat (map (\<lambda>(col, v). cell_pair t rid col (the (encoded v)))
                              (zip (ColumnNames tbl) items))
                @ concat (map (\<lambda>(r, its). tuple_writes t (ColumnNames tbl) r its) (zip rids_post post))]
          \<and> (\<forall>col\<in>set (drop (length items) (ColumnNames tbl)).
                map_of (kv w') (row_layout_key t rid col) = map_of (kv w) (row_layout_key t rid col)
              \<and> map_of (kv w') (column_layout_key t col rid) = map_of (kv w) (column_layout_key t col rid))"
proof -
  let ?cols = "ColumnNames tbl"
  let ?W = "\<lambda>zs. concat (map (\<lambda>(r, its). tuple_writes t ?cols r its) zs)"
  have n: "0 < length ?cols" using assms(10) by (cases ?cols) auto
  have len: "length (pre @ items # post) \<le> length (uuids w)"
    using assms(5,6,7) by simp
  from executeInsert_all_tuples [OF assms(1,2,3) n assms(4) len]
  obtain w' where
    r: "executeInsert w (InsertStmt t (Some (map ListNode (pre @ items # post)))) = (w', Inr ())"
       "history w' = history w @ [?W (zip (uuids w) (pre @ items # post))]"
       "kv w' = foldl apply_op (kv w) (?W (zip (uuids w) (pre @ items # post)))"
    by blast
  have z: "?W (zip (uuids w) (pre @ items # post))
             = ?W (zip rids_pre pre) @ tuple_writes t ?cols rid items @ ?W (zip rids_post post)"
    using assms(5) zip_rids [OF assms(6), of rid rids_post items post] by simp
  have o1: "rid \<notin> fst ` set (zip rids_pre pre)"
    using assms(8) by (auto dest: set_zip_leftD)
  have o2: "rid \<notin> fst ` set (zip rids_post post)"
    using assms(9) by (auto dest: set_zip_leftD)
  have "\<forall>col\<in>set (drop (length items) ?cols).
          map_of (kv w') (row_layout_key t rid col) = map_of (kv w) (row_layout_key t rid col)
        \<and> map_of (kv w') (column_layout_key t col rid) = map_of (kv w) (column_layout_key t col rid)"
  proof
    fix col
    assume c: "col \<in> set (drop (length items) ?cols)"
    from tuples_other_rid [OF o2] tuple_writes_rest [OF assms(10,11) c] tuples_other_rid [OF o1]
    show "map_of (kv w') (row_layout_key t rid col) = map_of (kv w) (row_layout_key t rid col)
        \<and> map_of (kv w') (column_layout_key t col rid) = map_of (kv w) (column_layout_key t col rid)"
      using r(3) z by simp
  qed
  with r(1,2) z tuple_writes_short [OF assms(10), of t rid] show ?thesis
    by (intro exI [of _ w']) simp
qed


theorem insert_missing_values_witness:
  "\<exists>w'. executeInsert w_customer
            (InsertStmt ''customer''
               (Some [ListNode [AConst (Ival 14), AConst (Str ''garry'')],
                      ListNode [AConst (Ival 30)]])) = (w', Inr ())
        \<and> history w' =
             [cell_pair ''customer'' ''u1'' ''age'' ''14'' @ cell_pair ''customer'' ''u1'' ''name'' ''garry''
              @ cell_pair ''customer'' ''u2'' ''age'' ''30'']
        \<and> map_of (kv w') (row_layout_key ''customer'' ''u2'' ''name'') = None
        \<and> map_of (kv w') (column_layout_key ''customer'' ''name'' ''u2'') = None"
proof -
  let ?pre = "[[AConst (Ival 14), AConst (Str ''garry'')]]"
  let ?items = "[AConst (Ival 30)]"
  have j: "json_Marshal 14 = ''14''" "json_Marshal 30 = ''30''" by code_simp+
  have u2: "[0..<2] = [0, 1]" by code_simp
  have g: "getTableDefinition w_customer ''customer'' = (w_customer, Inr tbl_customer)"
    by code_simp
  have h2: "no_fault 3 w_customer" by (simp add: no_fault_def w_customer_def)
  have h3: "map_of (kv w_customer) ([''catalog''], [''table'', ''customer'']) \<noteq> None"
    by (simp add: w_customer_def)
  have h4: "\<forall>its\<in>set (?pre @ ?items # []). \<forall>v\<in>set its. encoded v \<noteq> None" by simp
  have h5: "uuids w_customer = [''u1''] @ ''u2'' # []" by (simp add: w_customer_def)
  have h6: "length [''u1''] = length ?pre" by simp
  have h7: "length ([]::node list list) \<le> length ([]::string list)" by simp
  have h8: "''u2'' \<notin> set [''u1'']" by simp
  have h9: "''u2'' \<notin> set []" by simp
  have h10: "length ?items < length (ColumnNames tbl_customer)" by (simp add: tbl_customer_def)
  have h11: "distinct (ColumnNames tbl_customer)" by (simp add: tbl_customer_def)
  from insert_missing_values [OF g h2 h3 h4 h5 h6 h7 h8 h9 h10 h11]
  obtain w' where
    r: "executeInsert w_customer (InsertStmt ''customer'' (Some (map ListNode (?pre @ ?items # []))))
          = (w', Inr ())"
       "history w' = history w_customer @
               [concat (map (\<lambda>(r, its). tuple_writes ''customer'' (ColumnNames tbl_customer) r its)
                            (zip [''u1''] ?pre))
                @ concat (map (\<lambda>(col, v). cell_pair ''customer'' ''u2'' col (the (encoded v)))
                              (zip (ColumnNames tbl_customer) ?items))
                @ concat (map (\<lambda>(r, its). tuple_writes ''customer'' (ColumnNames tbl_customer) r its)
                              (zip [] []))]"
       "\<forall>col\<in>set (drop (length ?items) (ColumnNames tbl_customer)).
                map_of (kv w') (row_layout_key ''customer'' ''u2'' col)
                  = map_of (kv w_customer) (row_layout_key ''customer'' ''u2'' col)
              \<and> map_of (kv w') (column_layout_key ''customer'' col ''u2'')
                  = map_of (kv w_customer) (column_layout_key ''customer'' col ''u2'')"
    by blast
  show ?thesis
  proof (intro exI [of _ w'] conjI)
    show "executeInsert w_customer
            (InsertStmt ''customer'' (Some [ListNode [AConst (Ival 14), AConst (Str ''garry'')], ListNode ?items]))
            = (w', Inr ())"
      using r(1) by simp
    show "history w' =
             [cell_pair ''customer'' ''u1'' ''age'' ''14'' @ cell_pair ''customer'' ''u1'' ''name'' ''garry''
              @ cell_pair ''customer'' ''u2'' ''age'' ''30'']"
      using r(2) by (simp add: tuple_writes_def tbl_customer_def w_customer_def j u2)
    show "map_of (kv w') (row_layout_key ''customer'' ''u2'' ''name'') = None"
      using r(3) by (simp add: tbl_customer_def w_customer_def row_layout_key_def)
    show "map_of (kv w') (column_layout_key ''customer'' ''name'' ''u2'') = None"
      using r(3) by (simp add: tbl_customer_def w_customer_def column_layout_key_def)
  qed
qed

text \<open>
  Claim C10 as stated fails: the table \<^verbatim>\<open>customer\<close> has two columns, and an INSERT of the
  one-value tuple whose value is no string or integer constant (an expression, say) returns
  the error \<^verbatim>\<open>unknown value type\<close> and writes nothing.
\<close>

theorem insert_short_tuple_counterexample:
  "length [OtherNode] < length (ColumnNames tbl_customer)
   \<and> getTableDefinition w_customer ''customer'' = (w_customer, Inr tbl_customer)
   \<and> snd (executeInsert w_customer (InsertStmt ''customer'' (Some [ListNode [OtherNode]])))
       = Inl (Err ''could not insert into the table table: unknown value type'')
   \<and> kv (fst (executeInsert w_customer (InsertStmt ''customer'' (Some [ListNode [OtherNode]]))))
       = kv w_customer"
  by code_simp

section \<open>The session\<close>

text \<open>
  Claim C8. A Query whose text parses to more than one statement is rejected with the error
  \<^verbatim>\<open>only make one request at a time\<close>: no statement is executed and no frame is written
  (the server state is returned unchanged), and the session loop logs the error and closes
  the connection.
\<close>

theorem two_statements_rejected:
  assumes "parse q = Inr stmts" and "1 < length stmts"
  shows "handleMessage parse pgs (Message (Query q) # inbox)
           = ((pgs, inbox), Inl (Err ''only make one request at a time''))
       \<and> handle_loop parse pgs (Message (Query q) # inbox)
           = ((log_Println pgs ''only make one request at a time'')\<lparr>conn := (conn pgs)\<lparr>closed := True\<rparr>\<rparr>, None)"
  using assms
  by (simp add: handle_loop.simps [of parse pgs "Message (Query q) # inbox"] handle_return_def)

theorem two_statements_rejected_witness:
  "handle_loop (\<lambda>s. Inr [Select (SelectStmt [] [OtherTarget]), Select (SelectStmt [] [OtherTarget])])
     pgs_customer [Message (Query ''select 1; select 2;'')]
   = (pgs_customer\<lparr>conn := \<lparr>outbox = [], write_error = None, closed = True\<rparr>,
                    db := w_customer\<lparr>logs := [Line ''only make one request at a time'']\<rparr>\<rparr>, None)"
  using two_statements_rejected
    [of "\<lambda>s. Inr [Select (SelectStmt [] [OtherTarget]), Select (SelectStmt [] [OtherTarget])]"
        "''select 1; select 2;''"
        "[Select (SelectStmt [] [OtherTarget]), Select (SelectStmt [] [OtherTarget])]"
        pgs_customer "[]"]
  by (simp add: pgs_customer_def log_Println_def w_customer_def)

text \<open>
  Claim C7 at a failing input. The table \<^verbatim>\<open>customer\<close> exists and the client sends
  \<^verbatim>\<open>insert into customer values (1.5)\<close>; the constant is neither a string nor an integer, so
  \<^verbatim>\<open>execute\<close> returns the error \<^verbatim>\<open>could not insert into the table table: unknown value type\<close>.
  \<^verbatim>\<open>handleMessage\<close> drops that error: it writes CommandComplete \<^verbatim>\<open>INSERT ok\<close> and
  ReadyForQuery, logs nothing, returns no error and leaves the connection open.
\<close>

theorem insert_error_not_reported:
  "snd (execute w_customer [Insert (InsertStmt ''customer'' (Some [ListNode [AConst OtherVal]]))])
     = Inl (Err ''could not insert into the table table: unknown value type'')
   \<and> handleMessage (\<lambda>s. Inr [Insert (InsertStmt ''customer'' (Some [ListNode [AConst OtherVal]]))])
       pgs_customer [Message (Query ''insert into customer values (1.5)'')]
     = ((pgs_customer\<lparr>conn := \<lparr>outbox = [CommandComplete ''INSERT ok'', ReadyForQuery CHR ''I''],
                                write_error = None, closed = False\<rparr>,
                       db := w_customer\<lparr>uuids := [''u2'']\<rparr>\<rparr>, []), Inr ())"
  by code_simp

end
